theory Spec2Isabelle
  imports Main "HOL-Library.Word"
begin

unbundle bit_operations_syntax

section \<open>Data model\<close>

text \<open>
  Bytes of the flash images are \<open>uint8_t\<close>; an image (\<open>oldcontents\<close>, \<open>newcontents\<close>,
  \<open>curcontents\<close>, a compare buffer) is a list of bytes, and a pointer \<open>buf + k\<close> into it is
  \<open>drop k buf\<close>.  Offsets, lengths and block sizes are natural numbers; where the source
  computes in \<open>unsigned int\<close> and a claim depends on the width, the reduction modulo
  \<open>2 ^ 32\<close> is written out.  Memory allocation is taken to succeed and the log output
  (\<open>msg_cdbg\<close>, \<open>msg_cerr\<close>) is left out.
\<close>

type_synonym u8 = "8 word"

text \<open>\<open>enum write_granularity\<close> of flash.h.\<close>

datatype write_granularity =
    write_gran_256bytes
  | write_gran_1bit
  | write_gran_1byte
  | write_gran_128bytes
  | write_gran_264bytes
  | write_gran_512bytes
  | write_gran_528bytes
  | write_gran_1024bytes
  | write_gran_1056bytes
  | write_gran_1byte_implicit_erase

text \<open>\<open>enum error_action\<close> and the global \<open>access_denied_action\<close>; the flag \<open>paranoid\<close> of
  the selected entry of \<open>programmer_table\<close>.\<close>

datatype error_action = error_fail | error_ignore

record env =
  access_denied_action :: error_action
  paranoid :: bool

definition ACCESS_DENIED :: int where
  "ACCESS_DENIED = - 7"

definition ignore_error :: "env \<Rightarrow> int \<Rightarrow> bool" where
  "ignore_error e err = (err = ACCESS_DENIED \<and> access_denied_action e = error_ignore)"

text \<open>
  The operations the executor issues on the chip are recorded in a trace, in the order in
  which they are issued.
\<close>

datatype event = EvRead nat nat | EvWrite nat nat | EvErase nat nat

text \<open>
  \<open>struct eraseblock\<close> and \<open>struct block_eraser\<close>, whose \<open>block_erase\<close> is a function pointer
  that may be \<open>NULL\<close>.  The functions of the chip act on the state \<open>'s\<close> of the device
  behind the master and return their status with the new state.
\<close>

record eraseblock =
  size_eb :: nat
  count_eb :: nat

record 's block_eraser =
  eraseblocks :: "eraseblock list"
  block_erase :: "('s \<Rightarrow> nat \<Rightarrow> nat \<Rightarrow> int \<times> 's) option"

text \<open>
  The part of \<open>struct flashctx\<close> / \<open>struct flashchip\<close> the planner and the executor use.
  The chip's \<open>read\<close>, \<open>write\<close> and \<open>check_access\<close> are function pointers that may be \<open>NULL\<close>.
  \<open>read\<close> returns its status, the contents of the buffer it was given, and the new device
  state.  The feature bit \<open>FEATURE_ERASE_TO_ZERO\<close> is the field \<open>erase_to_zero\<close>.
\<close>

record 's flashctx =
  total_size :: nat
  page_size :: nat
  gran :: write_granularity
  erase_to_zero :: bool
  block_erasers :: "'s block_eraser list"
  chip_read :: "('s \<Rightarrow> nat \<Rightarrow> nat \<Rightarrow> int \<times> u8 list \<times> 's) option"
  chip_write :: "('s \<Rightarrow> u8 list \<Rightarrow> nat \<Rightarrow> nat \<Rightarrow> int \<times> 's) option"
  check_access :: "('s \<Rightarrow> nat \<Rightarrow> nat \<Rightarrow> int \<Rightarrow> int) option"

text \<open>
  Modelled from the spec: the macro \<open>ERASED_VALUE(flash)\<close> is used by flashrom.c but its
  definition is not among the sources.  The spec's glossary says an erase sets every bit to
  the erased value, "typically 1; some chips invert this", and the chip descriptor carries
  the feature flag \<open>ERASE_TO_ZERO\<close> for the inverted chips.
\<close>

definition ERASED_VALUE :: "'s flashctx \<Rightarrow> u8" where
  "ERASED_VALUE flash = (if erase_to_zero flash then 0x00 else 0xff)"

text \<open>
  Modelled from the spec: \<open>min\<close> is declared in flash.h as \<open>int min(int a, int b)\<close>; its
  definition is not among the sources and the spec does not give it.  It is taken to
  return the smaller of its two arguments, as its callers, which bound a chunk by the
  number of bytes that remain, expect.  Every caller passes \<open>unsigned int\<close> values and
  assigns the result to an \<open>unsigned int\<close>: \<open>c_min\<close> is the call with these conversions, in
  which a value from \<open>2 ^ 31\<close> on counts as a negative number.
\<close>

definition c_min :: "nat \<Rightarrow> nat \<Rightarrow> nat" where
  "c_min a b =
     (let x = (of_nat a :: 32 word); y = (of_nat b :: 32 word)
      in unat (if sint x \<le> sint y then x else y))"

section \<open>Executor: the decisions\<close>

text \<open>\<open>memcmp(a, b, n) != 0\<close> on two buffers.\<close>

definition differ :: "u8 list \<Rightarrow> u8 list \<Rightarrow> nat \<Rightarrow> bool" where
  "differ a b n = list_ex (\<lambda>i. a ! i \<noteq> b ! i) [0..<n]"

text \<open>\<open>need_erase_gran_bytes\<close>: the loops over \<open>j\<close> and over \<open>i\<close>.\<close>

definition need_erase_gran_bytes :: "u8 list \<Rightarrow> u8 list \<Rightarrow> nat \<Rightarrow> nat \<Rightarrow> u8 \<Rightarrow> bool" where
  "need_erase_gran_bytes have want len g erased_value =
     list_ex (\<lambda>j. let limit = c_min g (len - j * g) in
                  differ (drop (j * g) have) (drop (j * g) want) limit \<and>
                  list_ex (\<lambda>i. have ! (j * g + i) \<noteq> erased_value) [0..<limit])
             [0..<len div g]"

text \<open>\<open>need_erase\<close>: one case per granularity, as in the \<open>switch\<close>.\<close>

fun need_erase :: "u8 list \<Rightarrow> u8 list \<Rightarrow> nat \<Rightarrow> write_granularity \<Rightarrow> u8 \<Rightarrow> bool" where
  "need_erase have want len write_gran_1bit erased_value =
     list_ex (\<lambda>i. (have ! i AND want ! i) \<noteq> want ! i) [0..<len]"
| "need_erase have want len write_gran_1byte erased_value =
     list_ex (\<lambda>i. have ! i \<noteq> want ! i \<and> have ! i \<noteq> erased_value) [0..<len]"
| "need_erase have want len write_gran_128bytes erased_value =
     need_erase_gran_bytes have want len 128 erased_value"
| "need_erase have want len write_gran_256bytes erased_value =
     need_erase_gran_bytes have want len 256 erased_value"
| "need_erase have want len write_gran_264bytes erased_value =
     need_erase_gran_bytes have want len 264 erased_value"
| "need_erase have want len write_gran_512bytes erased_value =
     need_erase_gran_bytes have want len 512 erased_value"
| "need_erase have want len write_gran_528bytes erased_value =
     need_erase_gran_bytes have want len 528 erased_value"
| "need_erase have want len write_gran_1024bytes erased_value =
     need_erase_gran_bytes have want len 1024 erased_value"
| "need_erase have want len write_gran_1056bytes erased_value =
     need_erase_gran_bytes have want len 1056 erased_value"
| "need_erase have want len write_gran_1byte_implicit_erase erased_value = False"

text \<open>The stride \<open>get_next_write\<close> selects for a granularity.\<close>

fun stride_of :: "write_granularity \<Rightarrow> nat" where
  "stride_of write_gran_1bit = 1"
| "stride_of write_gran_1byte = 1"
| "stride_of write_gran_1byte_implicit_erase = 1"
| "stride_of write_gran_128bytes = 128"
| "stride_of write_gran_256bytes = 256"
| "stride_of write_gran_264bytes = 264"
| "stride_of write_gran_512bytes = 512"
| "stride_of write_gran_528bytes = 528"
| "stride_of write_gran_1024bytes = 1024"
| "stride_of write_gran_1056bytes = 1056"

text \<open>
  The scanning loop of \<open>get_next_write\<close>, from index \<open>i\<close> with the current values of
  \<open>need_write\<close> and \<open>rel_start\<close>; it returns the final \<open>i\<close>, \<open>need_write\<close> and \<open>rel_start\<close>.
\<close>

function gnw_scan :: "u8 list \<Rightarrow> u8 list \<Rightarrow> nat \<Rightarrow> nat \<Rightarrow> nat \<Rightarrow> bool \<Rightarrow> nat \<Rightarrow> nat \<times> bool \<times> nat" where
  "gnw_scan have want len stride i need_write rel_start =
     (if i < len div stride then
        (let limit = c_min stride (len - i * stride) in
         if differ (drop (i * stride) have) (drop (i * stride) want) limit then
           (if \<not> need_write then gnw_scan have want len stride (i + 1) True (i * stride)
            else gnw_scan have want len stride (i + 1) need_write rel_start)
         else
           (if need_write then (i, need_write, rel_start)
            else gnw_scan have want len stride (i + 1) need_write rel_start))
      else (i, need_write, rel_start))"
  by pat_completeness auto
termination
  by (relation "measure (\<lambda>(have, want, len, stride, i, nw, rs). len div stride - i)") auto

declare gnw_scan.simps [simp del]

text \<open>
  \<open>get_next_write\<close> returns \<open>first_len\<close> and the amount \<open>rel_start\<close> it adds to
  \<open>*first_start\<close>.
\<close>

definition get_next_write :: "u8 list \<Rightarrow> u8 list \<Rightarrow> nat \<Rightarrow> write_granularity \<Rightarrow> nat \<times> nat" where
  "get_next_write have want len g =
     (let stride = stride_of g;
          (i, need_write, rel_start) = gnw_scan have want len stride 0 False 0;
          first_len = (if need_write then c_min (i * stride - rel_start) len else 0)
      in (first_len, rel_start))"

section \<open>Verifier\<close>

text \<open>\<open>compare_range\<close> counts the differing bytes and returns \<open>-1\<close> when there is one.\<close>

definition compare_range :: "u8 list \<Rightarrow> u8 list \<Rightarrow> nat \<Rightarrow> nat \<Rightarrow> int" where
  "compare_range wantbuf havebuf start len =
     (let failcount = length (filter (\<lambda>i. wantbuf ! i \<noteq> havebuf ! i) [0..<len])
      in if failcount \<noteq> 0 then - 1 else 0)"

text \<open>
  The chunked loop of \<open>verify_range\<close> for a paranoid programmer.  It ends either by
  \<open>goto out_free\<close> with the value of \<open>ret\<close> (\<open>Inl\<close>), or by leaving the loop with \<open>ret\<close> and
  \<open>failcount\<close> (\<open>Inr\<close>).  The index \<open>i\<close> and the address \<open>start + i\<close> are \<open>unsigned int\<close>.
  With \<open>page_size = 0\<close> the index does not advance and the loop may run forever: the result
  is then \<open>None\<close>.
\<close>

partial_function (option) verify_chunks ::
  "env \<Rightarrow> 's flashctx \<Rightarrow> ('s \<Rightarrow> nat \<Rightarrow> nat \<Rightarrow> int \<times> u8 list \<times> 's) \<Rightarrow> u8 list \<Rightarrow> nat \<Rightarrow> nat
     \<Rightarrow> nat \<Rightarrow> int \<Rightarrow> 's \<Rightarrow> event list \<Rightarrow> ((int + int \<times> int) \<times> 's \<times> event list) option" where
  "verify_chunks e flash rd cmpbuf start len i ret s tr =
     (if i < len then
        (let chunksize = c_min (page_size flash) (len - i);
             addr = (start + i) mod 2 ^ 32;
             i' = (i + chunksize) mod 2 ^ 32 in
         case rd s addr chunksize of (tmp, readbuf, s') \<Rightarrow>
           (let tr' = tr @ [EvRead addr chunksize] in
            if tmp \<noteq> 0 then
              (if ignore_error e tmp
               then verify_chunks e flash rd cmpbuf start len i' tmp s' tr'
               else Some (Inl tmp, s', tr'))
            else if (case check_access flash of None \<Rightarrow> False
                     | Some ca \<Rightarrow> (let t = ca s' addr chunksize 0
                                   in t \<noteq> 0 \<and> ignore_error e t))
            then verify_chunks e flash rd cmpbuf start len i' ret s' tr'
            else (let failcount = compare_range (drop i cmpbuf) readbuf addr chunksize in
                  if failcount \<noteq> 0 then Some (Inr (ret, failcount), s', tr')
                  else verify_chunks e flash rd cmpbuf start len i' ret s' tr')))
      else Some (Inr (ret, 0), s, tr))"

text \<open>
  \<open>verify_range\<close>.  \<open>start\<close>, \<open>len\<close> and \<open>total_size * 1024\<close> are \<open>unsigned int\<close>, so the range
  check compares the sums reduced modulo \<open>2 ^ 32\<close>.
\<close>

definition verify_range ::
  "env \<Rightarrow> 's flashctx \<Rightarrow> u8 list \<Rightarrow> nat \<Rightarrow> nat \<Rightarrow> 's \<Rightarrow> event list \<Rightarrow> (int \<times> 's \<times> event list) option" where
  "verify_range e flash cmpbuf start len s tr =
     (if len = 0 then Some (- 1, s, tr)
      else case chip_read flash of
        None \<Rightarrow> Some (- 1, s, tr)
      | Some rd \<Rightarrow>
         (if (start + len) mod 2 ^ 32 > (total_size flash * 1024) mod 2 ^ 32 then Some (- 1, s, tr)
          else if paranoid e then
            (case verify_chunks e flash rd cmpbuf start len 0 0 s tr of
               None \<Rightarrow> None
             | Some (Inl ret, s', tr') \<Rightarrow> Some (ret, s', tr')
             | Some (Inr (ret, failcount), s', tr') \<Rightarrow>
                 Some (if failcount \<noteq> 0 then - 1 else ret, s', tr'))
          else
            (case rd s start len of (tmp, readbuf, s') \<Rightarrow>
               (let tr' = tr @ [EvRead start len] in
                if tmp \<noteq> 0 \<and> \<not> ignore_error e tmp then Some (tmp, s', tr')
                else (let failcount = compare_range cmpbuf readbuf start len in
                      Some (if failcount \<noteq> 0 then - 1 else 0, s', tr'))))))"

section \<open>Executor: one block\<close>

text \<open>
  \<open>check_erased_range\<close> verifies the range against a buffer filled with the erased value.
\<close>

definition check_erased_range ::
  "env \<Rightarrow> 's flashctx \<Rightarrow> nat \<Rightarrow> nat \<Rightarrow> 's \<Rightarrow> event list \<Rightarrow> (int \<times> 's \<times> event list) option" where
  "check_erased_range e flash start len s tr =
     verify_range e flash (replicate len (ERASED_VALUE flash)) start len s tr"

text \<open>
  \<open>write_flash\<close> fails with \<open>-1\<close>, without touching the chip, when the chip has no write
  function.
\<close>

definition write_flash ::
  "'s flashctx \<Rightarrow> u8 list \<Rightarrow> nat \<Rightarrow> nat \<Rightarrow> 's \<Rightarrow> event list \<Rightarrow> int \<times> 's \<times> event list" where
  "write_flash flash buf start len s tr =
     (case chip_write flash of
        None \<Rightarrow> (- 1, s, tr)
      | Some wr \<Rightarrow> (case wr s buf start len of (r, s') \<Rightarrow> (r, s', tr @ [EvWrite start len])))"

text \<open>\<open>memset(buf + start, v, len)\<close>.\<close>

definition memset :: "u8 list \<Rightarrow> nat \<Rightarrow> u8 \<Rightarrow> nat \<Rightarrow> u8 list" where
  "memset buf start v len = take start buf @ replicate len v @ drop (start + len) buf"

text \<open>
  The condition under which \<open>erase_and_write_block_helper\<close> erases the block: the call of
  \<open>need_erase\<close> on the two slices, with the arguments the source passes.
\<close>

definition erase_decision :: "'s flashctx \<Rightarrow> u8 list \<Rightarrow> u8 list \<Rightarrow> nat \<Rightarrow> nat \<Rightarrow> bool" where
  "erase_decision flash curcontents newcontents start len =
     need_erase (drop start curcontents) (drop start newcontents) len (gran flash) 0xff"

text \<open>
  The \<open>while\<close> loop of \<open>erase_and_write_block_helper\<close>: \<open>curcontents\<close> and \<open>newcontents\<close> are
  the whole images, \<open>start\<close> the offset of the block.  The result is the value returned by
  the helper with the device state and the trace; \<open>None\<close> when a verification inside does
  not return.  \<open>starthere\<close>, \<open>len - starthere\<close> and the address \<open>start + starthere\<close> passed to
  \<open>write_flash\<close> and \<open>verify_range\<close> are \<open>unsigned int\<close>; the pointers \<open>curcontents + starthere\<close>
  and \<open>newcontents + starthere\<close> are not reduced.
\<close>

partial_function (option) write_runs ::
  "env \<Rightarrow> 's flashctx \<Rightarrow> nat \<Rightarrow> nat \<Rightarrow> u8 list \<Rightarrow> u8 list \<Rightarrow> bool \<Rightarrow> nat \<Rightarrow> int \<Rightarrow> 's \<Rightarrow> event list
     \<Rightarrow> (int \<times> 's \<times> event list) option" where
  "write_runs e flash start len curcontents newcontents block_was_erased starthere ret s tr =
     (case get_next_write (drop (start + starthere) curcontents)
             (drop (start + starthere) newcontents)
             ((2 ^ 32 + len - starthere) mod 2 ^ 32) (gran flash) of
        (lenhere, rel_start) \<Rightarrow>
          (let starthere' = (starthere + rel_start) mod 2 ^ 32;
               addr = (start + starthere') mod 2 ^ 32 in
           if lenhere = 0 then Some (ret, s, tr)
           else
             (case write_flash flash (drop (start + starthere') newcontents)
                     addr lenhere s tr of
                (r, s1, tr1) \<Rightarrow>
                  if r \<noteq> 0 then Some (r, s1, tr1)
                  else if paranoid e \<and> \<not> block_was_erased then
                    (case verify_range e flash (drop (start + starthere') newcontents)
                            addr lenhere s1 tr1 of
                       None \<Rightarrow> None
                     | Some (v, s2, tr2) \<Rightarrow>
                         if v \<noteq> 0 then Some (- 1, s2, tr2)
                         else write_runs e flash start len curcontents newcontents
                                block_was_erased ((starthere' + lenhere) mod 2 ^ 32) r s2 tr2)
                  else write_runs e flash start len curcontents newcontents
                         block_was_erased ((starthere' + lenhere) mod 2 ^ 32) r s1 tr1)))"

text \<open>
  \<open>erase_and_write_block_helper\<close>.  It returns its status, the buffer \<open>curcontents\<close> (which it
  overwrites with the erased value after a successful erase), the device state and the
  trace.  \<open>erasefn\<close> is the function pointer it is given; the helper has no result
  (\<open>None\<close>) when it calls a \<open>NULL\<close> pointer or when a verification inside does not return.
\<close>

definition erase_and_write_block_helper ::
  "env \<Rightarrow> 's flashctx \<Rightarrow> nat \<Rightarrow> nat \<Rightarrow> u8 list \<Rightarrow> u8 list \<Rightarrow> ('s \<Rightarrow> nat \<Rightarrow> nat \<Rightarrow> int \<times> 's) option
     \<Rightarrow> 's \<Rightarrow> event list \<Rightarrow> (int \<times> u8 list \<times> 's \<times> event list) option" where
  "erase_and_write_block_helper e flash start len curcontents newcontents erasefn s tr =
     (if erase_decision flash curcontents newcontents start len then
        (case erasefn of
           None \<Rightarrow> None
         | Some erase \<Rightarrow>
        (case erase s start len of (ret, s1) \<Rightarrow>
           (let tr1 = tr @ [EvErase start len] in
            if ret \<noteq> 0 then Some (ret, curcontents, s1, tr1)
            else
              (case (if paranoid e then check_erased_range e flash start len s1 tr1
                     else Some (0, s1, tr1)) of
                 None \<Rightarrow> None
               | Some (c, s2, tr2) \<Rightarrow>
                   if c \<noteq> 0 then Some (- 1, curcontents, s2, tr2)
                   else
                     (let cur' = memset curcontents start (ERASED_VALUE flash) len in
                      case write_runs e flash start len cur' newcontents True 0 ret s2 tr2 of
                        None \<Rightarrow> None
                      | Some (r, s3, tr3) \<Rightarrow> Some (r, cur', s3, tr3))))))
      else
        (case write_runs e flash start len curcontents newcontents False 0 0 s tr of
           None \<Rightarrow> None
         | Some (r, s3, tr3) \<Rightarrow> Some (r, curcontents, s3, tr3)))"

section \<open>Chip descriptor and processing units\<close>

text \<open>
  The array bounds of flash.h; \<open>struct eraser\<close>, \<open>struct processing_unit\<close>, and the
  planner's \<open>struct b_map\<close> and \<open>struct range_map\<close>.  The field \<open>need_erase\<close> of \<open>b_map\<close> is
  called \<open>need_erase_bit\<close> here, since \<open>need_erase\<close> is also a function of flashrom.c; the
  field \<open>block_size\<close> of \<open>range_map\<close> is \<open>map_block_size\<close>.
\<close>

definition NUM_ERASEREGIONS :: nat where
  "NUM_ERASEREGIONS = 5"

definition NUM_ERASEFUNCTIONS :: nat where
  "NUM_ERASEFUNCTIONS = 6"

record eraser =
  eraser_index :: nat
  region_index :: nat

record processing_unit =
  offset :: nat
  block_size :: nat
  num_blocks :: nat
  block_eraser_index :: nat
  block_region_index :: nat

record b_map =
  need_change_bit :: bool
  need_erase_bit :: bool

record range_map =
  map_block_size :: nat
  limit :: nat
  block_map :: "b_map list"

section \<open>Eraser selection\<close>

text \<open>
  The loop over \<open>n\<close> of \<open>fill_sorted_erasers\<close>: the first region whose \<open>size * count\<close>
  (a product of two \<open>unsigned int\<close>) reaches \<open>erase_size\<close>, or \<open>NUM_ERASEREGIONS\<close>.
\<close>

function find_region :: "eraseblock list \<Rightarrow> nat \<Rightarrow> nat \<Rightarrow> nat" where
  "find_region ebs erase_size n =
     (if n < NUM_ERASEREGIONS then
        (if (size_eb (ebs ! n) * count_eb (ebs ! n)) mod 2 ^ 32 \<ge> erase_size then n
         else find_region ebs erase_size (n + 1))
      else n)"
  by pat_completeness auto
termination
  by (relation "measure (\<lambda>(ebs, erase_size, n). NUM_ERASEREGIONS - n)") auto

declare find_region.simps [simp del]

text \<open>The block size an entry of \<open>sorted_erasers\<close> stands for.\<close>

definition eraser_size :: "'s block_eraser list \<Rightarrow> eraser \<Rightarrow> nat" where
  "eraser_size chip_erasers er =
     size_eb (eraseblocks (chip_erasers ! eraser_index er) ! region_index er)"

text \<open>
  The loop over \<open>m\<close> of \<open>fill_sorted_erasers\<close> together with the two assignments and the
  \<open>j++\<close> that follow it, on the first \<open>j\<close> entries of \<open>sorted_erasers\<close>: entries with a
  smaller block size are passed over; at an entry of equal size the loop stops after
  \<open>j--\<close>, so that the assignment overwrites that entry and \<open>j++\<close> restores the count; at a
  larger entry \<open>memmove\<close> shifts the rest up by one and the new entry takes the place; when
  the loop runs out the new entry is appended.
\<close>

fun place_eraser :: "'s block_eraser list \<Rightarrow> eraser \<Rightarrow> eraser list \<Rightarrow> eraser list" where
  "place_eraser chip_erasers new [] = [new]"
| "place_eraser chip_erasers new (old # rest) =
     (if eraser_size chip_erasers old < eraser_size chip_erasers new
      then old # place_eraser chip_erasers new rest
      else if eraser_size chip_erasers old = eraser_size chip_erasers new
      then new # rest
      else new # old # rest)"

text \<open>The loop over \<open>k\<close>.\<close>

function fill_sorted_loop ::
  "'s block_eraser list \<Rightarrow> nat \<Rightarrow> nat \<Rightarrow> eraser list \<Rightarrow> eraser list" where
  "fill_sorted_loop chip_erasers erase_size k sorted_erasers =
     (if k < NUM_ERASEFUNCTIONS then
        (if block_erase (chip_erasers ! k) = None
         then fill_sorted_loop chip_erasers erase_size (k + 1) sorted_erasers
         else
           (let n = find_region (eraseblocks (chip_erasers ! k)) erase_size 0 in
            if n = NUM_ERASEREGIONS
            then fill_sorted_loop chip_erasers erase_size (k + 1) sorted_erasers
            else fill_sorted_loop chip_erasers erase_size (k + 1)
                   (place_eraser chip_erasers \<lparr>eraser_index = k, region_index = n\<rparr>
                      sorted_erasers)))
      else sorted_erasers)"
  by pat_completeness auto
termination
  by (relation "measure (\<lambda>(ce, erase_size, k, se). NUM_ERASEFUNCTIONS - k)") auto

declare fill_sorted_loop.simps [simp del]

text \<open>
  The failures of the planner: \<open>exit(1)\<close> when no eraser qualifies, and a division by a
  block size of zero.
\<close>

datatype planner_error = No_erasers_found | Zero_block_size

definition fill_sorted_erasers ::
  "'s block_eraser list \<Rightarrow> nat \<Rightarrow> planner_error + eraser list" where
  "fill_sorted_erasers chip_erasers erase_size =
     (let sorted_erasers = fill_sorted_loop chip_erasers erase_size 0 [] in
      if sorted_erasers = [] then Inl No_erasers_found else Inr sorted_erasers)"

section \<open>Diff and fold planner\<close>

text \<open>
  The initialisation loop of \<open>fill_action_descriptor\<close>: entry \<open>i\<close> of \<open>range_maps\<close>.  The
  block map is zeroed; the limit stays zero for the largest block size.
\<close>

definition init_range_map :: "'s block_eraser list \<Rightarrow> eraser list \<Rightarrow> nat \<Rightarrow> nat \<Rightarrow> range_map" where
  "init_range_map chip_erasers sorted_erasers chip_size i =
     (let block_size = eraser_size chip_erasers (sorted_erasers ! i);
          num_blocks = chip_size div block_size
      in \<lparr>map_block_size = block_size,
          limit = (if i < length sorted_erasers - 1
                   then ((eraser_size chip_erasers (sorted_erasers ! (i + 1)) div block_size) * 7) div 10
                   else 0),
          block_map = replicate num_blocks \<lparr>need_change_bit = False, need_erase_bit = False\<rparr>\<rparr>)"

definition init_range_maps :: "'s block_eraser list \<Rightarrow> eraser list \<Rightarrow> nat \<Rightarrow> range_map list" where
  "init_range_maps chip_erasers sorted_erasers chip_size =
     map (init_range_map chip_erasers sorted_erasers chip_size) [0..<length sorted_erasers]"

text \<open>\<open>x & ~m\<close> on unsigned values.\<close>

definition and_not :: "nat \<Rightarrow> nat \<Rightarrow> nat" where
  "and_not x m = nat (int x AND NOT (int m))"

lemma and_not_ge: "x - m \<le> and_not x m"
proof -
  have "NOT (int x) AND (int x AND int m) = 0"
    by (simp add: bit_eq_iff bit_simps)
  then have "int x - (int x AND int m) = int x AND NOT (int x AND int m)"
    by (rule disjunctive_diff_eq_and_not)
  also have "\<dots> = int x AND NOT (int m)"
    by (auto simp add: bit_eq_iff bit_simps)
  finally have eq: "int x AND NOT (int m) = int x - (int x AND int m)"
    by simp
  have le: "int x AND int m \<le> int m"
    by (rule AND_upper2) simp
  have "int x - int m \<le> int x AND NOT (int m)"
    using eq le by linarith
  then show ?thesis
    unfolding and_not_def by linarith
qed

text \<open>
  The loop of \<open>fill_action_descriptor\<close> that fills the map of the smallest block size.
  When both flags of the block are set, \<open>i\<close> is advanced by the block size and rounded
  down to a multiple of it, and the \<open>i++\<close> of the \<open>for\<close> statement then applies as in every
  other iteration.
\<close>

function diff_scan ::
  "u8 list \<Rightarrow> u8 list \<Rightarrow> nat \<Rightarrow> nat \<Rightarrow> nat \<Rightarrow> nat \<Rightarrow> b_map list \<Rightarrow> b_map list" where
  "diff_scan oldc newc erased_value chip_size bs i bm =
     (if i < chip_size then
        (if oldc ! i = newc ! i then diff_scan oldc newc erased_value chip_size bs (i + 1) bm
         else
           (let block_index = i div bs;
                bm1 = (if unat (oldc ! i) \<noteq> erased_value
                       then bm[block_index := (bm ! block_index)\<lparr>need_erase_bit := True\<rparr>]
                       else bm);
                bm2 = (if unat (newc ! i) \<noteq> erased_value
                       then bm1[block_index := (bm1 ! block_index)\<lparr>need_change_bit := True\<rparr>]
                       else bm1)
            in if need_erase_bit (bm2 ! block_index) \<and> need_change_bit (bm2 ! block_index)
               then diff_scan oldc newc erased_value chip_size bs
                      (and_not (i + bs) (bs - 1) + 1) bm2
               else diff_scan oldc newc erased_value chip_size bs (i + 1) bm2))
      else bm)"
  by pat_completeness auto
termination
  apply (relation "measure (\<lambda>(oldc, newc, ev, chip_size, bs, i, bm). chip_size - i)")
  subgoal by simp
  subgoal by simp
  subgoal for oldc newc erased_value chip_size bs i
    using and_not_ge [of "i + bs" "bs - 1"] by simp
  subgoal by simp
  done

declare diff_scan.simps [simp del]

text \<open>
  The upward pass of \<open>fold_range_maps\<close>.  \<open>fold_block\<close> is the body of the loop over
  \<open>block_index\<close>: it counts the marks of the lower blocks \<open>lower_start .. lower_end - 1\<close>
  and marks the block of the larger size when the count of erase marks exceeds the limit
  of the lower map.
\<close>

definition fold_block :: "range_map \<Rightarrow> nat \<Rightarrow> nat \<Rightarrow> b_map list \<Rightarrow> b_map list" where
  "fold_block lower block_mult block_index bm =
     (let lower_start = block_index * block_mult;
          lower_end = lower_start + block_mult;
          erase_marked_blocks =
            length (filter (\<lambda>lower_index. need_erase_bit (block_map lower ! lower_index))
                      [lower_start..<lower_end]);
          change_marked_blocks =
            length (filter (\<lambda>lower_index. need_change_bit (block_map lower ! lower_index))
                      [lower_start..<lower_end])
      in if erase_marked_blocks > limit lower
         then bm[block_index := (bm ! block_index)
                   \<lparr>need_erase_bit := True, need_change_bit := (change_marked_blocks \<noteq> 0)\<rparr>]
         else bm)"

definition fold_level :: "nat \<Rightarrow> nat \<Rightarrow> range_map list \<Rightarrow> range_map list" where
  "fold_level chip_size i maps =
     (let rmap = maps ! i;
          lower = maps ! (i - 1);
          block_mult = map_block_size rmap div map_block_size lower
      in maps[i := rmap\<lparr>block_map :=
                 fold (fold_block lower block_mult)
                   [0..<chip_size div map_block_size rmap] (block_map rmap)\<rparr>])"

definition fold_up :: "nat \<Rightarrow> range_map list \<Rightarrow> range_map list" where
  "fold_up chip_size maps = fold (fold_level chip_size) [1..<length maps] maps"

text \<open>
  \<open>clear_all_nested\<close>, called for block \<open>block_index\<close> of the map at position \<open>i\<close>
  (\<open>upper_level_map = maps + i\<close>, \<open>i \<ge> 1\<close>): the loop over \<open>j\<close> clears both flags of the
  blocks of the map at \<open>i - 1\<close> in the address range of the block, and recurses when
  \<open>i > 1\<close>.
\<close>

definition clear_block :: "nat \<Rightarrow> nat \<Rightarrow> range_map list \<Rightarrow> range_map list" where
  "clear_block k j maps =
     maps[k := (maps ! k)\<lparr>block_map :=
        (block_map (maps ! k))[j := (block_map (maps ! k) ! j)
             \<lparr>need_change_bit := False, need_erase_bit := False\<rparr>]\<rparr>]"

fun clear_all_nested :: "nat \<Rightarrow> nat \<Rightarrow> range_map list \<Rightarrow> range_map list" where
  "clear_all_nested 0 block_index maps = maps"
| "clear_all_nested (Suc k) block_index maps =
     (let upper_level_map = maps ! Suc k;
          this_level_map = maps ! k;
          range_start = map_block_size upper_level_map * block_index;
          range_end = range_start + map_block_size upper_level_map
      in fold (\<lambda>j ms. let ms' = clear_block k j ms
                      in if Suc k > 1 then clear_all_nested k j ms' else ms')
           [range_start div map_block_size this_level_map ..<
            range_end div map_block_size this_level_map] maps)"

text \<open>The downward pass of \<open>fold_range_maps\<close>, and \<open>fold_range_maps\<close> itself.\<close>

definition prune_level :: "nat \<Rightarrow> nat \<Rightarrow> range_map list \<Rightarrow> range_map list" where
  "prune_level chip_size i maps =
     fold (\<lambda>block_index ms.
             if \<not> need_erase_bit (block_map (ms ! i) ! block_index) then ms
             else clear_all_nested i block_index ms)
       [0..<chip_size div map_block_size (maps ! i)] maps"

definition prune_down :: "nat \<Rightarrow> range_map list \<Rightarrow> range_map list" where
  "prune_down chip_size maps = fold (prune_level chip_size) (rev [1..<length maps]) maps"

definition fold_range_maps :: "nat \<Rightarrow> range_map list \<Rightarrow> range_map list" where
  "fold_range_maps chip_size maps = prune_down chip_size (fold_up chip_size maps)"

section \<open>Processing-unit emitter\<close>

text \<open>
  The unit written at \<open>processing_units[pu_index]\<close> when a run of \<open>consecutive_blocks\<close>
  marked blocks ends before block \<open>j\<close>.
\<close>

definition emit_unit :: "range_map \<Rightarrow> eraser \<Rightarrow> nat \<Rightarrow> nat \<Rightarrow> processing_unit" where
  "emit_unit rmap er j consecutive_blocks =
     \<lparr>offset = (j - consecutive_blocks) * map_block_size rmap,
      block_size = map_block_size rmap,
      num_blocks = consecutive_blocks,
      block_eraser_index = eraser_index er,
      block_region_index = region_index er\<rparr>"

text \<open>
  The body of the loop over \<open>j\<close>, on the pair of \<open>consecutive_blocks\<close> and the units
  written so far.
\<close>

definition emit_block ::
  "range_map \<Rightarrow> eraser \<Rightarrow> nat \<Rightarrow> nat \<times> processing_unit list \<Rightarrow> nat \<times> processing_unit list" where
  "emit_block rmap er j st =
     (case st of (consecutive_blocks, pus) \<Rightarrow>
        if need_erase_bit (block_map rmap ! j) \<or> need_change_bit (block_map rmap ! j)
        then (consecutive_blocks + 1, pus)
        else if consecutive_blocks = 0 then (consecutive_blocks, pus)
        else (0, pus @ [emit_unit rmap er j consecutive_blocks]))"

text \<open>One iteration of the loop over \<open>i\<close>: the scan of a map and the unit for a run that
  reaches the end of the map.\<close>

definition emit_level ::
  "nat \<Rightarrow> range_map \<Rightarrow> eraser \<Rightarrow> nat \<times> processing_unit list \<Rightarrow> nat \<times> processing_unit list" where
  "emit_level chip_size rmap er st =
     (let map_size = chip_size div map_block_size rmap in
      case fold (emit_block rmap er) [0..<map_size] st of
        (consecutive_blocks, pus) \<Rightarrow>
          if consecutive_blocks = 0 then (consecutive_blocks, pus)
          else (0, pus @ [emit_unit rmap er map_size consecutive_blocks]))"

definition emit_units :: "nat \<Rightarrow> range_map list \<Rightarrow> eraser list \<Rightarrow> processing_unit list" where
  "emit_units chip_size maps sorted_erasers =
     snd (fold (\<lambda>i. emit_level chip_size (maps ! i) (sorted_erasers ! i))
            [0..<length sorted_erasers] (0, []))"

section \<open>The planner\<close>

text \<open>
  The range maps after the diff scan (\<open>diffed_maps\<close>) and after the fold
  (\<open>planned_maps\<close>), and \<open>fill_action_descriptor\<close>.  The
  function reads \<open>range_maps[0]\<close>, so it has no result without an eraser; it divides by
  every block size, so it has none when one of them is zero.  Its result is the array
  \<open>processing_units\<close> as far as the function writes it: the units, and the sentinel, of
  which only \<open>num_blocks\<close> is assigned, the other fields keeping what the slot held
  (\<open>slot\<close>).
\<close>

definition diffed_maps ::
  "'s block_eraser list \<Rightarrow> eraser list \<Rightarrow> nat \<Rightarrow> nat \<Rightarrow> u8 list \<Rightarrow> u8 list \<Rightarrow> range_map list" where
  "diffed_maps chip_erasers sorted_erasers chip_size erased_value oldc newc =
     (let range_maps = init_range_maps chip_erasers sorted_erasers chip_size;
          m0 = range_maps ! 0
      in range_maps[0 := m0\<lparr>block_map :=
           diff_scan oldc newc erased_value chip_size (map_block_size m0) 0 (block_map m0)\<rparr>])"

definition planned_maps ::
  "'s block_eraser list \<Rightarrow> eraser list \<Rightarrow> nat \<Rightarrow> nat \<Rightarrow> u8 list \<Rightarrow> u8 list \<Rightarrow> range_map list" where
  "planned_maps chip_erasers sorted_erasers chip_size erased_value oldc newc =
     fold_range_maps chip_size
       (diffed_maps chip_erasers sorted_erasers chip_size erased_value oldc newc)"

definition fill_action_descriptor ::
  "processing_unit \<Rightarrow> u8 list \<Rightarrow> u8 list \<Rightarrow> eraser list \<Rightarrow> 's block_eraser list \<Rightarrow> nat \<Rightarrow> nat
     \<Rightarrow> planner_error + processing_unit list" where
  "fill_action_descriptor slot oldc newc sorted_erasers chip_erasers chip_size erased_value =
     (if sorted_erasers = [] then Inl No_erasers_found
      else if list_ex (\<lambda>er. eraser_size chip_erasers er = 0) sorted_erasers
      then Inl Zero_block_size
      else Inr (emit_units chip_size
                  (planned_maps chip_erasers sorted_erasers chip_size erased_value oldc newc)
                  sorted_erasers
                @ [slot\<lparr>num_blocks := 0\<rparr>]))"

text \<open>
  Modelled from the spec: \<open>flash_erase_value\<close> is declared in flash.h ("the byte value we
  expect to see in erased regions of the flash") but not defined among the sources; it is
  the erased value of the chip.
\<close>

definition flash_erase_value :: "'s flashctx \<Rightarrow> nat" where
  "flash_erase_value flash = unat (ERASED_VALUE flash)"

text \<open>The first loop of \<open>prepare_action_descriptor\<close>: one more than the highest offset at
  which the images differ, or zero.\<close>

definition highest_modified :: "u8 list \<Rightarrow> u8 list \<Rightarrow> nat \<Rightarrow> nat" where
  "highest_modified oldcontents newcontents chip_size =
     fold (\<lambda>i block_size. if newcontents ! i \<noteq> oldcontents ! i then i + 1 else block_size)
       [0..<chip_size] 0"

record action_descriptor =
  oldcontents :: "u8 list"
  newcontents :: "u8 list"
  processing_units :: "processing_unit list"

text \<open>
  \<open>prepare_action_descriptor\<close>.  The product \<open>total_size * 1024\<close> is computed in
  \<open>unsigned int\<close> before it is stored in the \<open>size_t\<close> \<open>chip_size\<close>.
\<close>

definition prepare_action_descriptor ::
  "processing_unit \<Rightarrow> 's flashctx \<Rightarrow> u8 list \<Rightarrow> u8 list \<Rightarrow> planner_error + action_descriptor" where
  "prepare_action_descriptor slot flash oldc newc =
     (let chip_size = (total_size flash * 1024) mod 2 ^ 32 in
      case fill_sorted_erasers (block_erasers flash) (highest_modified oldc newc chip_size) of
        Inl err \<Rightarrow> Inl err
      | Inr sorted_erasers \<Rightarrow>
          (case fill_action_descriptor slot oldc newc sorted_erasers (block_erasers flash)
                  chip_size (flash_erase_value flash) of
             Inl err \<Rightarrow> Inl err
           | Inr pus \<Rightarrow>
               Inr \<lparr>oldcontents = oldc, newcontents = newc, processing_units = pus\<rparr>))"

section \<open>Executor: walking the processing units\<close>

text \<open>
  The inner loop of \<open>walk_eraseregions\<close> over the blocks of one unit, from \<open>base\<close> up to
  \<open>top\<close> (here \<open>top_addr\<close>).  It ends with \<open>Inl rc\<close> when the function returns \<open>rc\<close> from inside the loop and
  with \<open>Inr rc\<close> when the loop is left.
\<close>

partial_function (option) walk_blocks ::
  "env \<Rightarrow> 's flashctx \<Rightarrow> processing_unit \<Rightarrow> u8 list \<Rightarrow> nat \<Rightarrow> nat \<Rightarrow> int \<Rightarrow> u8 list \<Rightarrow> 's \<Rightarrow> event list
     \<Rightarrow> ((int + int) \<times> u8 list \<times> 's \<times> event list) option" where
  "walk_blocks e flash pu newc base top_addr rc oldc s tr =
     (if base < top_addr then
        (case erase_and_write_block_helper e flash base (block_size pu) oldc newc
                (block_erase (block_erasers flash ! block_eraser_index pu)) s tr of
           None \<Rightarrow> None
         | Some (r, oldc', s', tr') \<Rightarrow>
             if r \<noteq> 0 then
               (if ignore_error e r
                then walk_blocks e flash pu newc (base + block_size pu) top_addr 0 oldc' s' tr'
                else Some (Inl r, oldc', s', tr'))
             else walk_blocks e flash pu newc (base + block_size pu) top_addr r oldc' s' tr')
      else Some (Inr rc, oldc, s, tr))"

text \<open>
  The outer loop over the array of units, up to the sentinel.  Running off the end of the
  array gives no result.
\<close>

fun walk_units ::
  "env \<Rightarrow> 's flashctx \<Rightarrow> u8 list \<Rightarrow> processing_unit list \<Rightarrow> int \<Rightarrow> u8 list \<Rightarrow> 's \<Rightarrow> event list
     \<Rightarrow> (int \<times> u8 list \<times> 's \<times> event list) option" where
  "walk_units e flash newc [] rc oldc s tr = None"
| "walk_units e flash newc (pu # pus) rc oldc s tr =
     (if num_blocks pu = 0 then Some (rc, oldc, s, tr)
      else
        (case walk_blocks e flash pu newc (offset pu)
                (offset pu + block_size pu * num_blocks pu) rc oldc s tr of
           None \<Rightarrow> None
         | Some (Inl r, oldc', s', tr') \<Rightarrow> Some (r, oldc', s', tr')
         | Some (Inr rc', oldc', s', tr') \<Rightarrow> walk_units e flash newc pus rc' oldc' s' tr'))"

text \<open>\<open>walk_eraseregions\<close> with \<open>erase_and_write_block_helper\<close>, that is
  \<open>erase_and_write_flash\<close>.\<close>

definition erase_and_write_flash ::
  "env \<Rightarrow> 's flashctx \<Rightarrow> action_descriptor \<Rightarrow> 's \<Rightarrow> event list
     \<Rightarrow> (int \<times> u8 list \<times> 's \<times> event list) option" where
  "erase_and_write_flash e flash descriptor s tr =
     walk_units e flash (newcontents descriptor) (processing_units descriptor) 0
       (oldcontents descriptor) s tr"

section \<open>An ideal master\<close>

text \<open>
  The ideal master of the spec's testable properties: the device state is the image held
  by the chip; a read returns the bytes of the range, a write copies the requested bytes
  into the range, and an erase sets every byte of the block to the erased value.  All
  three succeed.
\<close>

definition ideal_read :: "u8 list \<Rightarrow> nat \<Rightarrow> nat \<Rightarrow> int \<times> u8 list \<times> u8 list" where
  "ideal_read s start len = (0, take len (drop start s), s)"

definition ideal_write :: "u8 list \<Rightarrow> u8 list \<Rightarrow> nat \<Rightarrow> nat \<Rightarrow> int \<times> u8 list" where
  "ideal_write s buf start len = (0, take start s @ take len buf @ drop (start + len) s)"

definition ideal_erase :: "u8 \<Rightarrow> u8 list \<Rightarrow> nat \<Rightarrow> nat \<Rightarrow> int \<times> u8 list" where
  "ideal_erase erased_value s start len = (0, memset s start erased_value len)"

text \<open>
  Planning for a chip that holds \<open>before\<close> and executing the plan on it: the image the
  chip holds in the end.
\<close>

definition plan_and_execute ::
  "env \<Rightarrow> processing_unit \<Rightarrow> u8 list flashctx \<Rightarrow> u8 list \<Rightarrow> u8 list \<Rightarrow> u8 list option" where
  "plan_and_execute e slot flash before after =
     (case prepare_action_descriptor slot flash before after of
        Inl err \<Rightarrow> None
      | Inr descriptor \<Rightarrow>
          (case erase_and_write_flash e flash descriptor before [] of
             None \<Rightarrow> None
           | Some (rc, oldc', s', tr') \<Rightarrow> Some s'))"

text \<open>The byte addresses a list of processing units covers.\<close>

definition covered :: "processing_unit list \<Rightarrow> nat set" where
  "covered pus = (\<Union>pu \<in> set pus. {offset pu ..< offset pu + num_blocks pu * block_size pu})"

section \<open>Notions used to state the properties\<close>

text \<open>
  Eraser \<open>k\<close> qualifies when the loop over \<open>k\<close> does not skip it: it has an erase function
  and one of its regions reaches \<open>erase_size\<close>.  \<open>entry_of\<close> is the entry the loop then
  places for it.  Eraser \<open>k\<close> is selected among the first \<open>kmax\<close> erasers when it qualifies
  and no later qualifying eraser below \<open>kmax\<close> has the same block size.
\<close>

definition qualifies :: "'s block_eraser list \<Rightarrow> nat \<Rightarrow> nat \<Rightarrow> bool" where
  "qualifies chip_erasers erase_size k =
     (k < NUM_ERASEFUNCTIONS \<and> block_erase (chip_erasers ! k) \<noteq> None \<and>
      find_region (eraseblocks (chip_erasers ! k)) erase_size 0 \<noteq> NUM_ERASEREGIONS)"

definition entry_of :: "'s block_eraser list \<Rightarrow> nat \<Rightarrow> nat \<Rightarrow> eraser" where
  "entry_of chip_erasers erase_size k =
     \<lparr>eraser_index = k, region_index = find_region (eraseblocks (chip_erasers ! k)) erase_size 0\<rparr>"

definition selected :: "'s block_eraser list \<Rightarrow> nat \<Rightarrow> nat \<Rightarrow> nat \<Rightarrow> bool" where
  "selected ce H kmax k =
     (qualifies ce H k \<and> k < kmax \<and>
      (\<forall>k'. k < k' \<and> k' < kmax \<and> qualifies ce H k' \<longrightarrow>
         eraser_size ce (entry_of ce H k') \<noteq> eraser_size ce (entry_of ce H k)))"

definition sel_inv :: "'s block_eraser list \<Rightarrow> nat \<Rightarrow> nat \<Rightarrow> eraser list \<Rightarrow> bool" where
  "sel_inv ce H kmax es =
     (sorted_wrt (<) (map (eraser_size ce) es) \<and>
      set es = {entry_of ce H k | k. selected ce H kmax k})"

text \<open>
  The number of blocks marked for erase, and for change, among the blocks \<open>lo .. hi - 1\<close>
  of a map; the entry the fold step leaves for a block of the next larger size with \<open>M\<close>
  lower blocks per block; a marked entry, as the emitter tests it.
\<close>

definition erase_marked :: "range_map \<Rightarrow> nat \<Rightarrow> nat \<Rightarrow> nat" where
  "erase_marked lower lo hi = card {k. lo \<le> k \<and> k < hi \<and> need_erase_bit (block_map lower ! k)}"

definition change_marked :: "range_map \<Rightarrow> nat \<Rightarrow> nat \<Rightarrow> nat" where
  "change_marked lower lo hi = card {k. lo \<le> k \<and> k < hi \<and> need_change_bit (block_map lower ! k)}"

definition folded_entry :: "range_map \<Rightarrow> nat \<Rightarrow> nat \<Rightarrow> b_map \<Rightarrow> b_map" where
  "folded_entry lower M j b =
     (if erase_marked lower (j * M) (j * M + M) > limit lower
      then b\<lparr>need_erase_bit := True,
             need_change_bit := (change_marked lower (j * M) (j * M + M) \<noteq> 0)\<rparr>
      else b)"


text \<open>
  Two lists of range maps have the same shape when they agree on the block sizes, the
  limits and the lengths of the block maps.  \<open>folded_upto\<close> describes the maps after the
  levels below \<open>i\<close> have been folded, in terms of the maps \<open>maps0\<close> before the fold.
\<close>

definition same_shape :: "range_map list \<Rightarrow> range_map list \<Rightarrow> bool" where
  "same_shape m m0 =
     (length m = length m0 \<and>
      (\<forall>a < length m0. map_block_size (m ! a) = map_block_size (m0 ! a) \<and>
         limit (m ! a) = limit (m0 ! a) \<and>
         length (block_map (m ! a)) = length (block_map (m0 ! a))))"

definition folded_upto :: "nat \<Rightarrow> range_map list \<Rightarrow> nat \<Rightarrow> range_map list \<Rightarrow> bool" where
  "folded_upto chip_size maps0 i m =
     (same_shape m maps0 \<and>
      (\<forall>a < length maps0. a = 0 \<or> i \<le> a \<longrightarrow> m ! a = maps0 ! a) \<and>
      (\<forall>a < length maps0. 1 \<le> a \<and> a < i \<longrightarrow>
         (\<forall>k < length (block_map (maps0 ! a)).
            block_map (m ! a) ! k =
              (if k < chip_size div map_block_size (maps0 ! a)
               then folded_entry (m ! (a - 1))
                      (map_block_size (maps0 ! a) div map_block_size (maps0 ! (a - 1))) k
                      (block_map (maps0 ! a) ! k)
               else block_map (maps0 ! a) ! k))))"

text \<open>
  Notions for the properties of the fold and of the prune.  \<open>zero_entry\<close> is an entry with
  both flags clear and \<open>entry m a x\<close> is entry \<open>x\<close> of the block map at level \<open>a\<close>.  The
  maps are \<open>sized\<close> when every block map has \<open>chip_size / block_size\<close> entries, and form a
  \<open>chain\<close> when the block sizes are positive and each divides the next.  \<open>cleared_below\<close>,
  \<open>pruned_at\<close> and \<open>pruned_from\<close> describe the maps after \<open>clear_all_nested\<close>, during the
  loop over the blocks of one level, and after the levels from \<open>k\<close> upwards have been
  pruned.  \<open>block_bytes bs x\<close> are the byte addresses of block \<open>x\<close> of size \<open>bs\<close>;
  \<open>unit_of\<close> says that a processing unit is a run of marked blocks of a map, and
  \<open>run_state\<close> is the invariant of the emitter's loop over one map.
\<close>

definition zero_entry :: b_map where
  "zero_entry = \<lparr>need_change_bit = False, need_erase_bit = False\<rparr>"

definition all_clear :: "nat \<Rightarrow> range_map list \<Rightarrow> bool" where
  "all_clear chip_size maps =
     (\<forall>a < length maps.
        block_map (maps ! a) = replicate (chip_size div map_block_size (maps ! a)) zero_entry)"

definition entry :: "range_map list \<Rightarrow> nat \<Rightarrow> nat \<Rightarrow> b_map" where
  "entry m a x = block_map (m ! a) ! x"

definition chain :: "range_map list \<Rightarrow> bool" where
  "chain m =
     ((\<forall>a < length m. 0 < map_block_size (m ! a)) \<and>
      (\<forall>a. Suc a < length m \<longrightarrow> map_block_size (m ! a) dvd map_block_size (m ! Suc a)))"











section \<open>Example inputs\<close>

text \<open>
  A chip of 2 KiB on the ideal master, with erasers for blocks of 512 bytes, for blocks of
  1 KiB and for the whole chip; the unused entries of the two arrays are empty.
  \<open>erase_to_zero\<close> selects the erased value.  \<open>three_levels\<close> is the list the eraser
  selection gives for this chip.
\<close>

definition no_region :: eraseblock where
  "no_region = \<lparr>size_eb = 0, count_eb = 0\<rparr>"

definition no_eraser :: "u8 list block_eraser" where
  "no_eraser = \<lparr>eraseblocks = replicate 5 no_region, block_erase = None\<rparr>"

definition small_chip :: "bool \<Rightarrow> write_granularity \<Rightarrow> u8 list flashctx" where
  "small_chip zero g =
     \<lparr>total_size = 2, page_size = 256, gran = g, erase_to_zero = zero,
      block_erasers =
        [\<lparr>eraseblocks = \<lparr>size_eb = 512, count_eb = 4\<rparr> # replicate 4 no_region,
          block_erase = Some (ideal_erase (if zero then 0x00 else 0xff))\<rparr>,
         \<lparr>eraseblocks = \<lparr>size_eb = 1024, count_eb = 2\<rparr> # replicate 4 no_region,
          block_erase = Some (ideal_erase (if zero then 0x00 else 0xff))\<rparr>,
         \<lparr>eraseblocks = \<lparr>size_eb = 2048, count_eb = 1\<rparr> # replicate 4 no_region,
          block_erase = Some (ideal_erase (if zero then 0x00 else 0xff))\<rparr>,
         no_eraser, no_eraser, no_eraser],
      chip_read = Some ideal_read,
      chip_write = Some ideal_write,
      check_access = None\<rparr>"

definition three_levels :: "eraser list" where
  "three_levels =
     [\<lparr>eraser_index = 0, region_index = 0\<rparr>, \<lparr>eraser_index = 1, region_index = 0\<rparr>,
      \<lparr>eraser_index = 2, region_index = 0\<rparr>]"

definition a_slot :: processing_unit where
  "a_slot = \<lparr>offset = 7, block_size = 7, num_blocks = 7, block_eraser_index = 7,
             block_region_index = 7\<rparr>"

definition paranoid_env :: env where
  "paranoid_env = \<lparr>access_denied_action = error_ignore, paranoid = True\<rparr>"

text \<open>
  The erasers of a chip of 1 MiB: blocks of 64 KiB, 4 KiB (twice, for two erase commands),
  32 KiB, and a chip erase.
\<close>

definition catalog :: "u8 list block_eraser list" where
  "catalog =
     [\<lparr>eraseblocks = \<lparr>size_eb = 65536, count_eb = 16\<rparr> # replicate 4 no_region,
       block_erase = Some (ideal_erase 0xff)\<rparr>,
      \<lparr>eraseblocks = \<lparr>size_eb = 4096, count_eb = 256\<rparr> # replicate 4 no_region,
       block_erase = Some (ideal_erase 0xff)\<rparr>,
      \<lparr>eraseblocks = \<lparr>size_eb = 32768, count_eb = 32\<rparr> # replicate 4 no_region,
       block_erase = Some (ideal_erase 0xff)\<rparr>,
      \<lparr>eraseblocks = \<lparr>size_eb = 4096, count_eb = 256\<rparr> # replicate 4 no_region,
       block_erase = Some (ideal_erase 0xff)\<rparr>,
      \<lparr>eraseblocks = \<lparr>size_eb = 1048576, count_eb = 1\<rparr> # replicate 4 no_region,
       block_erase = Some (ideal_erase 0xff)\<rparr>,
      no_eraser]"

text \<open>
  A programmer that is not paranoid.  Two images of 2 KiB: \<open>image_a\<close> is zero everywhere
  and \<open>image_b\<close> differs from it in the first byte of the first and of the second block of
  512 bytes.  \<open>unit_a\<close> is the processing unit for the first block of 512 bytes;
  \<open>erased_a\<close> is \<open>image_a\<close> with that block erased, and \<open>written_a\<close> is \<open>image_a\<close> with that
  block replaced by the block of \<open>image_b\<close>.
\<close>

definition plain_env :: env where
  "plain_env = \<lparr>access_denied_action = error_ignore, paranoid = False\<rparr>"

definition image_a :: "u8 list" where
  "image_a = replicate 2048 0"

definition image_b :: "u8 list" where
  "image_b = (replicate 2048 0)[0 := 1, 512 := 1]"

definition unit_a :: processing_unit where
  "unit_a = \<lparr>offset = 0, block_size = 512, num_blocks = 1, block_eraser_index = 0,
              block_region_index = 0\<rparr>"

definition erased_a :: "u8 list" where
  "erased_a = memset image_a 0 0xff 512"

definition written_a :: "u8 list" where
  "written_a = take 512 image_b @ drop 512 image_a"

text \<open>
  A master whose write function reports success and stores nothing (a write-protected
  area seen through a master that does not notice), on the small chip; and a blank image
  of 2 KiB with the image that differs from it in byte 0.
\<close>

definition stuck_write :: "u8 list \<Rightarrow> u8 list \<Rightarrow> nat \<Rightarrow> nat \<Rightarrow> int \<times> u8 list" where
  "stuck_write s buf start len = (0, s)"

definition stuck_chip :: "u8 list flashctx" where
  "stuck_chip = (small_chip False write_gran_1byte)\<lparr>chip_write := Some stuck_write\<rparr>"

definition blank :: "u8 list" where
  "blank = replicate 2048 0xff"

definition blank_b :: "u8 list" where
  "blank_b = (replicate 2048 0xff)[0 := 0x12]"

text \<open>
  The small chip behind a master whose read function succeeds and delivers zeros at every
  address.
\<close>

definition zero_read :: "u8 list \<Rightarrow> nat \<Rightarrow> nat \<Rightarrow> int \<times> u8 list \<times> u8 list" where
  "zero_read s start len = (0, replicate len 0, s)"

definition mirror_chip :: "u8 list flashctx" where
  "mirror_chip = (small_chip False write_gran_1byte)\<lparr>chip_read := Some zero_read\<rparr>"

text \<open>
  The chip with the write function that stores nothing, and a \<open>check_access\<close> that denies
  every range.
\<close>

definition denied_access :: "u8 list \<Rightarrow> nat \<Rightarrow> nat \<Rightarrow> int \<Rightarrow> int" where
  "denied_access s start len read = ACCESS_DENIED"

definition guarded_chip :: "u8 list flashctx" where
  "guarded_chip = stuck_chip\<lparr>check_access := Some denied_access\<rparr>"





section \<open>Properties of the conversions\<close>

text \<open>Below \<open>2 ^ 31\<close> the call of \<open>min\<close> gives the minimum.\<close>

lemma sint_small: "a < 2 ^ 31 \<Longrightarrow> sint (of_nat a :: 32 word) = int a"
  by (simp add: signed_of_nat signed_take_bit_int_eq_self)

lemma unat_small: "a < 2 ^ 31 \<Longrightarrow> unat (of_nat a :: 32 word) = a"
  by (simp add: unat_of_nat)

lemma c_min_small: "a < 2 ^ 31 \<Longrightarrow> b < 2 ^ 31 \<Longrightarrow> c_min a b = min a b"
  by (simp add: c_min_def sint_small unat_small min_def)

section \<open>Properties of the verifier\<close>

text \<open>
  Claim C10, as stated, does not hold when the sum \<open>start + len\<close> does not fit an
  \<open>unsigned int\<close>.  On the chip of 2 KiB, \<open>verify_range\<close> called with \<open>start = 4294967280\<close>
  and \<open>len = 32\<close> is asked for a range that ends far beyond the chip; the sum is computed
  modulo \<open>2 ^ 32\<close> and gives 16, the request passes the check, the read is issued and, the
  master delivering the expected bytes, the verification succeeds.  This is so for a plain
  and for a paranoid programmer.
\<close>

theorem wrapped_range_is_read:
  "total_size mirror_chip * 1024 < 4294967280 + 32 \<and>
   verify_range plain_env mirror_chip (replicate 32 0) 4294967280 32 image_a [] =
     Some (0, image_a, [EvRead 4294967280 32]) \<and>
   verify_range paranoid_env mirror_chip (replicate 32 0) 4294967280 32 image_a [] =
     Some (0, image_a, [EvRead 4294967280 32])"
proof -
  have c: "compare_range (drop 0 (replicate 32 0)) (replicate 32 0) a 32 = 0" for a
    by (simp add: compare_range_def)
  have m: "c_min 256 32 = 32"
    by (simp add: c_min_small)
  have "verify_chunks paranoid_env mirror_chip zero_read (replicate 32 0) 4294967280 32 32 0
          image_a tr = Some (Inr (0, 0), image_a, tr)" for tr
    by (subst verify_chunks.simps) simp
  then have "verify_chunks paranoid_env mirror_chip zero_read (replicate 32 0) 4294967280 32 0 0
          image_a [] = Some (Inr (0, 0), image_a, [EvRead 4294967280 32])"
    using c [of 4294967280]
    by (subst verify_chunks.simps)
      (simp add: mirror_chip_def small_chip_def zero_read_def m)
  then show ?thesis
    using c [of 4294967280]
    by (simp add: verify_range_def mirror_chip_def small_chip_def zero_read_def plain_env_def
        paranoid_env_def ignore_error_def)
qed

text \<open>
  Claim C10, amended to the comparison the code makes.  \<open>verify_range\<close> called with
  \<open>len = 0\<close> returns the failure value \<open>-1\<close> and issues no chip read: the device state and
  the trace of operations are returned as they were.  The same holds when \<open>start + len\<close>,
  reduced modulo \<open>2 ^ 32\<close> as the sum of two values of an \<open>unsigned int\<close> is, exceeds the
  size of the chip in bytes \<open>total_size * 1024\<close>, reduced likewise; in particular when
  neither the sum nor the product reaches \<open>2 ^ 32\<close> and the sum exceeds the product.  This
  is so whether or not the chip has a read function and whatever the programmer is.
\<close>

theorem verify_range_rejects:
  "(len = 0 \<longrightarrow> verify_range e flash cmpbuf start len s tr = Some (- 1, s, tr)) \<and>
   ((total_size flash * 1024) mod 2 ^ 32 < (start + len) mod 2 ^ 32 \<longrightarrow>
      verify_range e flash cmpbuf start len s tr = Some (- 1, s, tr))"
  by (simp add: verify_range_def split: option.split)

theorem verify_range_rejects_witness:
  "verify_range paranoid_env (small_chip False write_gran_1byte) [] 0 0 [] [] = Some (- 1, [], []) \<and>
   (total_size (small_chip False write_gran_1byte) * 1024) mod 2 ^ 32 < ((2000 + 100) mod 2 ^ 32 :: nat) \<and>
   verify_range paranoid_env (small_chip False write_gran_1byte) [] 2000 100 [] [] = Some (- 1, [], []) \<and>
   (total_size (small_chip False write_gran_1byte) * 1024) mod 2 ^ 32 < ((4294967295 + 4000) mod 2 ^ 32 :: nat) \<and>
   verify_range plain_env (small_chip False write_gran_1byte) [] 4294967295 4000 [] [] = Some (- 1, [], [])"
  using verify_range_rejects [where len = 0 and start = 0 and e = paranoid_env
      and flash = "small_chip False write_gran_1byte" and cmpbuf = "[]" and s = "[]" and tr = "[]"]
    verify_range_rejects [where len = 100 and start = 2000 and e = paranoid_env
      and flash = "small_chip False write_gran_1byte" and cmpbuf = "[]" and s = "[]" and tr = "[]"]
    verify_range_rejects [where len = 4000 and start = 4294967295 and e = plain_env
      and flash = "small_chip False write_gran_1byte" and cmpbuf = "[]" and s = "[]" and tr = "[]"]
  by (simp add: small_chip_def)

section \<open>Properties of the eraser selection\<close>

lemma find_region_end: "\<not> n < NUM_ERASEREGIONS \<Longrightarrow> find_region ebs H n = n"
  by (subst find_region.simps) simp

lemma find_region_hit:
  "n < NUM_ERASEREGIONS \<Longrightarrow> H \<le> (size_eb (ebs ! n) * count_eb (ebs ! n)) mod 2 ^ 32 \<Longrightarrow>
   find_region ebs H n = n"
  by (subst find_region.simps) simp

lemma find_region_miss:
  "n < NUM_ERASEREGIONS \<Longrightarrow> \<not> H \<le> (size_eb (ebs ! n) * count_eb (ebs ! n)) mod 2 ^ 32 \<Longrightarrow>
   find_region ebs H n = find_region ebs H (n + 1)"
  by (subst find_region.simps) simp

lemma find_region_props:
  "n \<le> NUM_ERASEREGIONS \<Longrightarrow> find_region ebs H n = r \<Longrightarrow>
     n \<le> r \<and> r \<le> NUM_ERASEREGIONS \<and>
     (r < NUM_ERASEREGIONS \<longrightarrow> H \<le> (size_eb (ebs ! r) * count_eb (ebs ! r)) mod 2 ^ 32)"
proof (induction ebs H n rule: find_region.induct)
  case (1 ebs H n)
  show ?case
  proof (cases "n < NUM_ERASEREGIONS")
    case True
    show ?thesis
    proof (cases "H \<le> (size_eb (ebs ! n) * count_eb (ebs ! n)) mod 2 ^ 32")
      case hit: True
      from find_region_hit [OF True hit] "1.prems" True hit show ?thesis by auto
    next
      case False
      with True "1.prems" have "find_region ebs H (n + 1) = r"
        by (simp add: find_region_miss)
      with "1.IH" [OF True False] True show ?thesis by simp
    qed
  next
    case False
    with "1.prems" find_region_end [OF False, of ebs H] show ?thesis
      by auto
  qed
qed

lemma place_eraser_set:
  "sorted_wrt (<) (map (eraser_size ce) es) \<Longrightarrow>
   set (place_eraser ce new es) = insert new {x \<in> set es. eraser_size ce x \<noteq> eraser_size ce new}"
  by (induction es) (auto)

lemma place_eraser_sorted:
  "sorted_wrt (<) (map (eraser_size ce) es) \<Longrightarrow>
   sorted_wrt (<) (map (eraser_size ce) (place_eraser ce new es))"
  by (induction es) (auto simp: place_eraser_set)


lemma selected_skip:
  "\<not> qualifies ce H k \<Longrightarrow> selected ce H (Suc k) k' = selected ce H k k'"
  unfolding selected_def
  by (metis less_Suc_eq)

lemma selected_step:
  "qualifies ce H k \<Longrightarrow>
   selected ce H (Suc k) k' =
     (k' = k \<or> (selected ce H k k' \<and>
        eraser_size ce (entry_of ce H k') \<noteq> eraser_size ce (entry_of ce H k)))"
  unfolding selected_def
  by (auto simp: less_Suc_eq)

lemma sel_inv_skip:
  "\<not> qualifies ce H k \<Longrightarrow> sel_inv ce H k es \<Longrightarrow> sel_inv ce H (Suc k) es"
  by (simp add: sel_inv_def selected_skip)

lemma sel_inv_step:
  assumes q: "qualifies ce H k" and inv: "sel_inv ce H k es"
  shows "sel_inv ce H (Suc k) (place_eraser ce (entry_of ce H k) es)"
proof -
  from inv have srt: "sorted_wrt (<) (map (eraser_size ce) es)"
    and st: "set es = {entry_of ce H k' | k'. selected ce H k k'}"
    by (simp_all add: sel_inv_def)
  have "set (place_eraser ce (entry_of ce H k) es) =
        {entry_of ce H k' | k'. selected ce H (Suc k) k'}"
    unfolding place_eraser_set [OF srt] st selected_step [OF q]
    by auto
  with place_eraser_sorted [OF srt] show ?thesis
    by (simp add: sel_inv_def)
qed

lemma fill_sorted_loop_end:
  "\<not> k < NUM_ERASEFUNCTIONS \<Longrightarrow> fill_sorted_loop ce H k es = es"
  by (subst fill_sorted_loop.simps) simp

lemma fill_sorted_loop_skip:
  "k < NUM_ERASEFUNCTIONS \<Longrightarrow> \<not> qualifies ce H k \<Longrightarrow>
   fill_sorted_loop ce H k es = fill_sorted_loop ce H (k + 1) es"
  by (subst fill_sorted_loop.simps) (auto simp: qualifies_def Let_def)

lemma fill_sorted_loop_take:
  "qualifies ce H k \<Longrightarrow>
   fill_sorted_loop ce H k es =
     fill_sorted_loop ce H (k + 1) (place_eraser ce (entry_of ce H k) es)"
  by (subst fill_sorted_loop.simps) (auto simp: qualifies_def entry_of_def Let_def)

lemma fill_sorted_loop_inv:
  "sel_inv ce H k es \<Longrightarrow> k \<le> NUM_ERASEFUNCTIONS \<Longrightarrow>
   sel_inv ce H NUM_ERASEFUNCTIONS (fill_sorted_loop ce H k es)"
proof (induction "NUM_ERASEFUNCTIONS - k" arbitrary: k es)
  case 0
  then have "k = NUM_ERASEFUNCTIONS" by simp
  with "0.prems" show ?case by (simp add: fill_sorted_loop_end)
next
  case (Suc d)
  then have kl: "k < NUM_ERASEFUNCTIONS" by simp
  have d: "d = NUM_ERASEFUNCTIONS - (k + 1)" using Suc.hyps(2) by simp
  show ?case
  proof (cases "qualifies ce H k")
    case False
    from sel_inv_skip [OF False Suc.prems(1)] have "sel_inv ce H (k + 1) es" by simp
    from Suc.hyps(1) [OF d this] kl show ?thesis
      by (simp add: fill_sorted_loop_skip [OF kl False])
  next
    case True
    from sel_inv_step [OF True Suc.prems(1)]
    have "sel_inv ce H (k + 1) (place_eraser ce (entry_of ce H k) es)" by simp
    from Suc.hyps(1) [OF d this] kl show ?thesis
      by (simp add: fill_sorted_loop_take [OF True])
  qed
qed

lemma sel_inv_init: "sel_inv ce H 0 []"
  by (simp add: sel_inv_def selected_def)

lemma fill_sorted_erasers_inv:
  "fill_sorted_erasers ce H = Inr es \<Longrightarrow> sel_inv ce H NUM_ERASEFUNCTIONS es"
  using fill_sorted_loop_inv [OF sel_inv_init, of ce H]
  by (auto simp: fill_sorted_erasers_def Let_def split: if_splits)


lemma catalog_selection:
  "fill_sorted_erasers catalog 0 =
     Inr [\<lparr>eraser_index = 3, region_index = 0\<rparr>, \<lparr>eraser_index = 2, region_index = 0\<rparr>,
          \<lparr>eraser_index = 0, region_index = 0\<rparr>, \<lparr>eraser_index = 4, region_index = 0\<rparr>]"
  by (simp add: fill_sorted_erasers_def fill_sorted_loop.simps find_region.simps catalog_def
      NUM_ERASEFUNCTIONS_def NUM_ERASEREGIONS_def eraser_size_def no_eraser_def no_region_def)

text \<open>
  Claim C6.  When \<open>fill_sorted_erasers\<close> returns a list, the block sizes of its entries are
  strictly ascending, so that no two entries have the same block size; and every entry
  names an eraser that has an erase function and a region of its region array, the one the
  entry records, whose \<open>size * count\<close> is at least the highest modified offset.
\<close>

theorem fill_sorted_erasers_ascending:
  assumes "fill_sorted_erasers ce H = Inr es"
  shows "sorted_wrt (<) (map (eraser_size ce) es) \<and>
         distinct (map (eraser_size ce) es) \<and>
         (\<forall>er \<in> set es.
            eraser_index er < NUM_ERASEFUNCTIONS \<and>
            block_erase (ce ! eraser_index er) \<noteq> None \<and>
            region_index er < NUM_ERASEREGIONS \<and>
            H \<le> size_eb (eraseblocks (ce ! eraser_index er) ! region_index er) *
                 count_eb (eraseblocks (ce ! eraser_index er) ! region_index er))"
proof -
  from fill_sorted_erasers_inv [OF assms]
  have srt: "sorted_wrt (<) (map (eraser_size ce) es)"
    and st: "set es = {entry_of ce H k | k. selected ce H NUM_ERASEFUNCTIONS k}"
    by (simp_all add: sel_inv_def)
  from srt have dist: "distinct (map (eraser_size ce) es)"
    by (simp add: strict_sorted_iff)
  have "eraser_index er < NUM_ERASEFUNCTIONS \<and>
        block_erase (ce ! eraser_index er) \<noteq> None \<and>
        region_index er < NUM_ERASEREGIONS \<and>
        H \<le> size_eb (eraseblocks (ce ! eraser_index er) ! region_index er) *
             count_eb (eraseblocks (ce ! eraser_index er) ! region_index er)"
    if "er \<in> set es" for er
  proof -
    from that st obtain k where er: "er = entry_of ce H k" and q: "qualifies ce H k"
      by (auto simp: selected_def)
    define r where "r = find_region (eraseblocks (ce ! k)) H 0"
    from q have r5: "r \<noteq> NUM_ERASEREGIONS"
      by (simp add: qualifies_def r_def)
    from find_region_props [of 0 "eraseblocks (ce ! k)" H r] r5
    have rl: "r < NUM_ERASEREGIONS"
      and ge: "H \<le> (size_eb (eraseblocks (ce ! k) ! r) * count_eb (eraseblocks (ce ! k) ! r)) mod 2 ^ 32"
      by (simp_all add: r_def)
    have "(size_eb (eraseblocks (ce ! k) ! r) * count_eb (eraseblocks (ce ! k) ! r)) mod 2 ^ 32
          \<le> size_eb (eraseblocks (ce ! k) ! r) * count_eb (eraseblocks (ce ! k) ! r)"
      by (rule mod_less_eq_dividend)
    with ge have "H \<le> size_eb (eraseblocks (ce ! k) ! r) * count_eb (eraseblocks (ce ! k) ! r)"
      by (rule order_trans)
    with q rl show ?thesis
      by (simp add: er entry_of_def qualifies_def r_def)
  qed
  with srt dist show ?thesis by blast
qed

theorem fill_sorted_erasers_ascending_witness:
  "fill_sorted_erasers catalog 0 =
     Inr [\<lparr>eraser_index = 3, region_index = 0\<rparr>, \<lparr>eraser_index = 2, region_index = 0\<rparr>,
          \<lparr>eraser_index = 0, region_index = 0\<rparr>, \<lparr>eraser_index = 4, region_index = 0\<rparr>] \<and>
   map (eraser_size catalog)
     [\<lparr>eraser_index = 3, region_index = 0\<rparr>, \<lparr>eraser_index = 2, region_index = 0\<rparr>,
      \<lparr>eraser_index = 0, region_index = 0\<rparr>, \<lparr>eraser_index = 4, region_index = 0\<rparr>]
     = [4096, 32768, 65536, 1048576] \<and>
   sorted_wrt (<) [4096, 32768, 65536, 1048576 :: nat]"
proof -
  have sizes: "map (eraser_size catalog)
     [\<lparr>eraser_index = 3, region_index = 0\<rparr>, \<lparr>eraser_index = 2, region_index = 0\<rparr>,
      \<lparr>eraser_index = 0, region_index = 0\<rparr>, \<lparr>eraser_index = 4, region_index = 0\<rparr>]
     = [4096, 32768, 65536, 1048576]"
    by (simp add: eraser_size_def catalog_def)
  from fill_sorted_erasers_ascending [OF catalog_selection] catalog_selection sizes
  show ?thesis by metis
qed

text \<open>
  Claim C7, as stated, fails.  In the catalog the erasers 1 and 3 both qualify with blocks
  of 4 KiB; the list holds eraser 3, the later one, and not eraser 1.
\<close>

theorem later_duplicate_kept_counterexample:
  "fill_sorted_erasers catalog 0 =
     Inr [\<lparr>eraser_index = 3, region_index = 0\<rparr>, \<lparr>eraser_index = 2, region_index = 0\<rparr>,
          \<lparr>eraser_index = 0, region_index = 0\<rparr>, \<lparr>eraser_index = 4, region_index = 0\<rparr>] \<and>
   qualifies catalog 0 1 \<and> qualifies catalog 0 3 \<and>
   eraser_size catalog (entry_of catalog 0 1) = eraser_size catalog (entry_of catalog 0 3)"
  by (simp add: fill_sorted_erasers_def fill_sorted_loop.simps find_region.simps catalog_def
      NUM_ERASEFUNCTIONS_def NUM_ERASEREGIONS_def eraser_size_def no_eraser_def no_region_def
      qualifies_def entry_of_def)

text \<open>
  Claim C7, amended.  When two qualifying erasers have the same block size, the list does
  not hold the earlier one: the entry of an equal size is overwritten by each later
  duplicate, so the list holds one entry of that block size and it names a qualifying
  eraser enumerated at or after the later of the two.
\<close>

theorem later_duplicate_replaces:
  assumes res: "fill_sorted_erasers ce H = Inr es"
    and q1: "qualifies ce H k1" and q2: "qualifies ce H k2" and lt: "k1 < k2"
    and eq: "eraser_size ce (entry_of ce H k1) = eraser_size ce (entry_of ce H k2)"
  shows "(\<forall>er \<in> set es. eraser_index er \<noteq> k1) \<and>
         (\<exists>er \<in> set es. eraser_size ce er = eraser_size ce (entry_of ce H k2) \<and>
                         k2 \<le> eraser_index er \<and> qualifies ce H (eraser_index er))"
proof -
  from fill_sorted_erasers_inv [OF res]
  have st: "set es = {entry_of ce H k | k. selected ce H NUM_ERASEFUNCTIONS k}"
    by (simp add: sel_inv_def)
  have k2l: "k2 < NUM_ERASEFUNCTIONS" using q2 by (simp add: qualifies_def)
  have first: "eraser_index er \<noteq> k1" if "er \<in> set es" for er
  proof
    assume k1: "eraser_index er = k1"
    from that st obtain k where er: "er = entry_of ce H k"
      and sel: "selected ce H NUM_ERASEFUNCTIONS k" by auto
    from er k1 have "k = k1" by (simp add: entry_of_def)
    with sel lt k2l q2 eq show False by (auto simp: selected_def)
  qed
  define S where "S = {k. k2 \<le> k \<and> k < NUM_ERASEFUNCTIONS \<and> qualifies ce H k \<and>
     eraser_size ce (entry_of ce H k) = eraser_size ce (entry_of ce H k2)}"
  have fin: "finite S" by (simp add: S_def)
  have ne: "S \<noteq> {}" using q2 k2l by (auto simp: S_def)
  define m where "m = Max S"
  from Max_in [OF fin ne] have mS: "m \<in> S" by (simp add: m_def)
  have "selected ce H NUM_ERASEFUNCTIONS m"
    unfolding selected_def
  proof (intro conjI allI impI)
    show "qualifies ce H m" and "m < NUM_ERASEFUNCTIONS" using mS by (simp_all add: S_def)
  next
    fix k' assume a: "m < k' \<and> k' < NUM_ERASEFUNCTIONS \<and> qualifies ce H k'"
    show "eraser_size ce (entry_of ce H k') \<noteq> eraser_size ce (entry_of ce H m)"
    proof
      assume "eraser_size ce (entry_of ce H k') = eraser_size ce (entry_of ce H m)"
      with a mS have "k' \<in> S" by (auto simp: S_def)
      with Max_ge [OF fin this] a show False by (simp add: m_def)
    qed
  qed
  with st have "entry_of ce H m \<in> set es" by auto
  moreover have "eraser_size ce (entry_of ce H m) = eraser_size ce (entry_of ce H k2)"
    and "k2 \<le> eraser_index (entry_of ce H m)" and "qualifies ce H (eraser_index (entry_of ce H m))"
    using mS by (simp_all add: S_def entry_of_def)
  ultimately show ?thesis using first by blast
qed

theorem later_duplicate_replaces_witness:
  "fill_sorted_erasers catalog 0 =
     Inr [\<lparr>eraser_index = 3, region_index = 0\<rparr>, \<lparr>eraser_index = 2, region_index = 0\<rparr>,
          \<lparr>eraser_index = 0, region_index = 0\<rparr>, \<lparr>eraser_index = 4, region_index = 0\<rparr>] \<and>
   qualifies catalog 0 1 \<and> qualifies catalog 0 3 \<and> (1::nat) < 3 \<and>
   eraser_size catalog (entry_of catalog 0 1) = eraser_size catalog (entry_of catalog 0 3) \<and>
   (1::nat) \<notin> eraser_index `
      set [\<lparr>eraser_index = 3, region_index = 0\<rparr>, \<lparr>eraser_index = 2, region_index = 0\<rparr>,
           \<lparr>eraser_index = 0, region_index = 0\<rparr>, \<lparr>eraser_index = 4, region_index = 0\<rparr>]"
proof -
  have q1: "qualifies catalog 0 1" and q3: "qualifies catalog 0 3"
    by (simp_all add: qualifies_def find_region.simps catalog_def
        NUM_ERASEFUNCTIONS_def NUM_ERASEREGIONS_def)
  have eq: "eraser_size catalog (entry_of catalog 0 1) = eraser_size catalog (entry_of catalog 0 3)"
    by (simp add: eraser_size_def entry_of_def find_region.simps catalog_def NUM_ERASEREGIONS_def)
  have lt: "(1::nat) < 3" by simp
  from later_duplicate_replaces [OF catalog_selection q1 q3 lt eq] catalog_selection q1 q3 eq
  show ?thesis by simp
qed

section \<open>Properties of the executor's decisions\<close>

text \<open>
  For a chip whose erased value is \<open>0xff\<close> the decision of the executor is \<open>need_erase\<close>
  evaluated with the erased value of the chip.
\<close>

lemma erase_decision_all_ones_chip:
  "\<not> erase_to_zero flash \<Longrightarrow>
   erase_decision flash cur new start len =
     need_erase (drop start cur) (drop start new) len (gran flash) (ERASED_VALUE flash)"
  by (simp add: erase_decision_def ERASED_VALUE_def)


text \<open>
  Claim C8 does not hold of the executor: \<open>erase_and_write_block_helper\<close> passes the
  constant \<open>0xff\<close> to \<open>need_erase\<close>, not the erased value of the chip (which it uses two
  statements later, in \<open>memset\<close>).  On a chip that erases to zero, with byte-wise
  granularity, take the first block of 512 bytes of an image of 2 KiB that is \<open>0xff\<close> everywhere and
  must become \<open>0x00\<close> at offset 0: the byte differs and is not the erased value \<open>0x00\<close>, so
  \<open>need_erase\<close> with the chip's erased value asks for an erase, but the executor decides
  not to erase.
\<close>

theorem erase_decision_uses_0xff:
  "erase_decision (small_chip True write_gran_1byte)
     (replicate 2048 0xff) ((replicate 2048 0xff)[0 := 0x00]) 0 512 = False \<and>
   need_erase (replicate 2048 0xff) ((replicate 2048 0xff)[0 := 0x00]) 512
     (gran (small_chip True write_gran_1byte)) (ERASED_VALUE (small_chip True write_gran_1byte)) = True"
proof -
  have "\<not> erase_decision (small_chip True write_gran_1byte)
     (replicate 2048 0xff) ((replicate 2048 0xff)[0 := 0x00]) 0 512"
    by (simp add: erase_decision_def small_chip_def list_ex_iff)
  moreover have "need_erase (replicate 2048 0xff) ((replicate 2048 0xff)[0 := 0x00]) 512
     (gran (small_chip True write_gran_1byte)) (ERASED_VALUE (small_chip True write_gran_1byte))"
    by (auto simp add: small_chip_def ERASED_VALUE_def list_ex_iff
        intro!: bexI [of _ 0])
  ultimately show ?thesis by simp
qed

section \<open>Properties of the planner: auxiliary facts\<close>

lemma fold_upt_invariant:
  assumes "P lo s"
    and "\<And>j t. lo \<le> j \<Longrightarrow> j < hi \<Longrightarrow> P j t \<Longrightarrow> P (Suc j) (f j t)"
    and "lo \<le> hi"
  shows "P hi (fold f [lo..<hi] s)"
  using assms(3) assms(2)
proof (induction hi)
  case 0
  with assms(1) show ?case by simp
next
  case (Suc hi)
  show ?case
  proof (cases "lo = Suc hi")
    case True
    with assms(1) show ?thesis by simp
  next
    case False
    with Suc.prems(1) have le: "lo \<le> hi" by simp
    have "P hi (fold f [lo..<hi] s)"
      by (rule Suc.IH [OF le]) (simp add: Suc.prems(2))
    then have "P (Suc hi) (f hi (fold f [lo..<hi] s))"
      using le by (intro Suc.prems(2)) simp_all
    with le show ?thesis by simp
  qed
qed

lemma diff_scan_equal:
  "(\<And>k. i \<le> k \<Longrightarrow> k < chip_size \<Longrightarrow> oldc ! k = newc ! k) \<Longrightarrow>
   diff_scan oldc newc ev chip_size bs i bm = bm"
proof (induction "chip_size - i" arbitrary: i)
  case 0
  then show ?case by (subst diff_scan.simps) simp
next
  case (Suc d)
  then have "i < chip_size" by simp
  moreover from Suc.prems this have "oldc ! i = newc ! i" by simp
  moreover have "diff_scan oldc newc ev chip_size bs (i + 1) bm = bm"
    using Suc.hyps(2) Suc.prems by (intro Suc.hyps(1)) simp_all
  ultimately show ?case by (subst diff_scan.simps) simp
qed

lemma length_filter_upt: "length (filter P [lo..<hi]) = card {k. lo \<le> k \<and> k < hi \<and> P k}"
proof -
  have "card (set (filter P [lo..<hi])) = length (filter P [lo..<hi])"
    by (rule distinct_card) simp
  moreover have "set (filter P [lo..<hi]) = {k. lo \<le> k \<and> k < hi \<and> P k}"
    by auto
  ultimately show ?thesis by simp
qed

lemma fold_block_eq:
  "fold_block lower M j bm =
     (if erase_marked lower (j * M) (j * M + M) > limit lower
      then bm[j := (bm ! j)\<lparr>need_erase_bit := True,
                need_change_bit := (change_marked lower (j * M) (j * M + M) \<noteq> 0)\<rparr>]
      else bm)"
  by (simp add: fold_block_def Let_def length_filter_upt erase_marked_def change_marked_def)

lemma fold_block_nth:
  "k < length bm \<Longrightarrow>
   fold_block lower M j bm ! k = (if k = j then folded_entry lower M j (bm ! k) else bm ! k)"
  by (simp add: fold_block_eq folded_entry_def)

lemma fold_block_length: "length (fold_block lower M j bm) = length bm"
  by (simp add: fold_block_eq)

lemma fold_blocks_length: "length (fold (fold_block lower M) [0..<nb] bm) = length bm"
  by (induction nb) (simp_all add: fold_block_length)

lemma fold_blocks_nth:
  "k < length bm \<Longrightarrow>
   fold (fold_block lower M) [0..<nb] bm ! k =
     (if k < nb then folded_entry lower M k (bm ! k) else bm ! k)"
proof (induction nb)
  case 0
  show ?case by simp
next
  case (Suc nb)
  have "fold (fold_block lower M) [0..<Suc nb] bm ! k =
        fold_block lower M nb (fold (fold_block lower M) [0..<nb] bm) ! k"
    by simp
  also have "\<dots> = (if k = nb then folded_entry lower M nb (fold (fold_block lower M) [0..<nb] bm ! k)
                    else fold (fold_block lower M) [0..<nb] bm ! k)"
    using Suc.prems by (simp add: fold_block_nth fold_blocks_length)
  also have "\<dots> = (if k < Suc nb then folded_entry lower M k (bm ! k) else bm ! k)"
    using Suc.IH [OF Suc.prems] by (auto simp add: less_Suc_eq)
  finally show ?case .
qed

lemma same_shape_refl: "same_shape m m"
  by (simp add: same_shape_def)

lemma same_shape_trans: "same_shape a b \<Longrightarrow> same_shape b c \<Longrightarrow> same_shape a c"
  by (simp add: same_shape_def)

lemma fold_level_length: "length (fold_level chip_size i maps) = length maps"
  by (simp add: fold_level_def Let_def)

lemma fold_level_other:
  "a \<noteq> i \<Longrightarrow> fold_level chip_size i maps ! a = maps ! a"
  by (simp add: fold_level_def Let_def)

lemma fold_level_at:
  "i < length maps \<Longrightarrow>
   fold_level chip_size i maps ! i =
     (maps ! i)\<lparr>block_map :=
        fold (fold_block (maps ! (i - 1)) (map_block_size (maps ! i) div map_block_size (maps ! (i - 1))))
          [0..<chip_size div map_block_size (maps ! i)] (block_map (maps ! i))\<rparr>"
  by (simp add: fold_level_def Let_def)

lemma fold_level_shape:
  "same_shape (fold_level chip_size i maps) maps"
  unfolding same_shape_def
proof (intro conjI allI impI)
  show "length (fold_level chip_size i maps) = length maps"
    by (rule fold_level_length)
next
  fix a assume a: "a < length maps"
  show "map_block_size (fold_level chip_size i maps ! a) = map_block_size (maps ! a)"
    using a by (cases "a = i") (simp_all add: fold_level_other fold_level_at)
  show "limit (fold_level chip_size i maps ! a) = limit (maps ! a)"
    using a by (cases "a = i") (simp_all add: fold_level_other fold_level_at)
  show "length (block_map (fold_level chip_size i maps ! a)) = length (block_map (maps ! a))"
    using a by (cases "a = i") (simp_all add: fold_level_other fold_level_at fold_blocks_length)
qed

lemma folded_upto_step:
  assumes inv: "folded_upto chip_size maps0 i m" and i1: "1 \<le> i" and il: "i < length maps0"
  shows "folded_upto chip_size maps0 (Suc i) (fold_level chip_size i m)"
proof -
  let ?m' = "fold_level chip_size i m"
  from inv have sh: "same_shape m maps0"
    and keep: "\<And>a. a < length maps0 \<Longrightarrow> a = 0 \<or> i \<le> a \<Longrightarrow> m ! a = maps0 ! a"
    and prev: "\<And>a k. a < length maps0 \<Longrightarrow> 1 \<le> a \<Longrightarrow> a < i \<Longrightarrow>
         k < length (block_map (maps0 ! a)) \<Longrightarrow>
            block_map (m ! a) ! k =
              (if k < chip_size div map_block_size (maps0 ! a)
               then folded_entry (m ! (a - 1))
                      (map_block_size (maps0 ! a) div map_block_size (maps0 ! (a - 1))) k
                      (block_map (maps0 ! a) ! k)
               else block_map (maps0 ! a) ! k)"
    unfolding folded_upto_def by blast+
  from sh have len: "length m = length maps0" by (simp add: same_shape_def)
  have sh': "same_shape ?m' maps0"
    using fold_level_shape sh by (rule same_shape_trans)
  have keep': "?m' ! a = maps0 ! a" if "a < length maps0" "a = 0 \<or> Suc i \<le> a" for a
  proof -
    from that i1 have "a \<noteq> i" by auto
    then have "?m' ! a = m ! a" by (rule fold_level_other)
    also have "m ! a = maps0 ! a" using that by (intro keep) auto
    finally show ?thesis .
  qed
  have mi: "m ! i = maps0 ! i" using il by (intro keep) simp_all
  from sh il i1 have bs1: "map_block_size (m ! (i - 1)) = map_block_size (maps0 ! (i - 1))"
    by (simp add: same_shape_def)
  have prev': "block_map (?m' ! a) ! k =
              (if k < chip_size div map_block_size (maps0 ! a)
               then folded_entry (?m' ! (a - 1))
                      (map_block_size (maps0 ! a) div map_block_size (maps0 ! (a - 1))) k
                      (block_map (maps0 ! a) ! k)
               else block_map (maps0 ! a) ! k)"
    if a: "a < length maps0" "1 \<le> a" "a < Suc i" and k: "k < length (block_map (maps0 ! a))" for a k
  proof (cases "a = i")
    case True
    have low: "?m' ! (i - 1) = m ! (i - 1)" using i1 by (intro fold_level_other) simp
    show ?thesis
      using il len k
      by (simp add: True fold_level_at low mi [symmetric] fold_blocks_nth bs1 [symmetric] del: One_nat_def)
  next
    case False
    with a have ai: "a < i" by simp
    then have "a - 1 \<noteq> i" by simp
    then have low: "?m' ! (a - 1) = m ! (a - 1)" by (rule fold_level_other)
    have "?m' ! a = m ! a" using False by (rule fold_level_other)
    with prev [OF a(1) a(2) ai k] low show ?thesis by simp
  qed
  show ?thesis
    unfolding folded_upto_def using sh' keep' prev' by blast
qed

lemma fold_up_folded:
  assumes "1 \<le> length maps0"
  shows "folded_upto chip_size maps0 (length maps0) (fold_up chip_size maps0)"
  unfolding fold_up_def
proof (rule fold_upt_invariant [where P = "folded_upto chip_size maps0"])
  show "folded_upto chip_size maps0 1 maps0"
    by (auto simp: folded_upto_def same_shape_refl)
next
  fix j t assume "1 \<le> j" "j < length maps0" "folded_upto chip_size maps0 j t"
  then show "folded_upto chip_size maps0 (Suc j) (fold_level chip_size j t)"
    by (intro folded_upto_step) simp_all
next
  show "1 \<le> length maps0" by (rule assms)
qed

lemma diff_scan_length:
  "length (diff_scan oldc newc ev chip_size bs i bm) = length bm"
proof (induction oldc newc ev chip_size bs i bm rule: diff_scan.induct)
  case (1 oldc newc ev chip_size bs i bm)
  show ?case
    by (subst diff_scan.simps) (use 1 in \<open>auto simp: Let_def\<close>)
qed

lemma init_range_maps_nth:
  "a < length se \<Longrightarrow>
   init_range_maps ce se chip_size ! a = init_range_map ce se chip_size a"
  by (simp add: init_range_maps_def)

lemma diffed_maps_length [simp]:
  "length (diffed_maps ce se chip_size ev oldc newc) = length se"
  by (simp add: diffed_maps_def Let_def init_range_maps_def)

lemma diffed_maps_size:
  "a < length se \<Longrightarrow>
   map_block_size (diffed_maps ce se chip_size ev oldc newc ! a) = eraser_size ce (se ! a)"
  by (cases a) (simp_all add: diffed_maps_def Let_def init_range_maps_def init_range_map_def)

lemma diffed_maps_limit:
  "a < length se \<Longrightarrow>
   limit (diffed_maps ce se chip_size ev oldc newc ! a) =
     (if a < length se - 1
      then ((eraser_size ce (se ! (a + 1)) div eraser_size ce (se ! a)) * 7) div 10
      else 0)"
  by (cases a) (simp_all add: diffed_maps_def Let_def init_range_maps_def init_range_map_def)

lemma diffed_maps_map_length:
  "a < length se \<Longrightarrow>
   length (block_map (diffed_maps ce se chip_size ev oldc newc ! a)) =
     chip_size div eraser_size ce (se ! a)"
  by (cases a)
    (simp_all add: diffed_maps_def Let_def init_range_maps_def init_range_map_def diff_scan_length)

lemma diffed_maps_upper:
  "1 \<le> a \<Longrightarrow> a < length se \<Longrightarrow>
   block_map (diffed_maps ce se chip_size ev oldc newc ! a) =
     replicate (chip_size div eraser_size ce (se ! a))
       \<lparr>need_change_bit = False, need_erase_bit = False\<rparr>"
  by (cases a) (simp_all add: diffed_maps_def Let_def init_range_maps_def init_range_map_def)

lemma diffed_maps_equal_images:
  "0 < length se \<Longrightarrow>
   block_map (diffed_maps ce se chip_size ev img img ! 0) =
     replicate (chip_size div eraser_size ce (se ! 0))
       \<lparr>need_change_bit = False, need_erase_bit = False\<rparr>"
  by (simp add: diffed_maps_def Let_def init_range_maps_def init_range_map_def diff_scan_equal)

lemma div_mult_div_le: "(a div b) * (b div c) \<le> a div (c::nat)"
proof (cases "c = 0")
  case True
  then show ?thesis by simp
next
  case False
  have "(a div b) * (b div c) * c = (a div b) * ((b div c) * c)" by simp
  also have "\<dots> \<le> (a div b) * b" by (intro mult_le_mono2) simp
  also have "\<dots> \<le> a" by simp
  finally show ?thesis using False by (simp add: less_eq_div_iff_mult_less_eq)
qed

lemma erase_marked_clear:
  assumes "block_map lower = replicate n zero_entry" "hi \<le> n"
  shows "erase_marked lower lo hi = 0"
proof -
  have "{k. lo \<le> k \<and> k < hi \<and> need_erase_bit (block_map lower ! k)} = {}"
    using assms by (auto simp: zero_entry_def)
  then show ?thesis by (simp add: erase_marked_def)
qed

lemma fold_level_clear:
  assumes ac: "all_clear chip_size maps" and i: "1 \<le> i" "i < length maps"
  shows "fold_level chip_size i maps = maps"
proof -
  let ?lower = "maps ! (i - 1)" and ?M = "map_block_size (maps ! i) div map_block_size (maps ! (i - 1))"
  let ?nb = "chip_size div map_block_size (maps ! i)"
  from ac i have low: "block_map ?lower = replicate (chip_size div map_block_size ?lower) zero_entry"
    by (simp add: all_clear_def)
  have step: "fold_block ?lower ?M j bm = bm" if "j < ?nb" for j bm
  proof -
    have "j * ?M + ?M = Suc j * ?M" by simp
    also have "\<dots> \<le> ?nb * ?M" using that by (intro mult_le_mono1) simp
    also have "\<dots> \<le> chip_size div map_block_size ?lower" by (rule div_mult_div_le)
    finally have "erase_marked ?lower (j * ?M) (j * ?M + ?M) = 0"
      by (rule erase_marked_clear [OF low])
    then show ?thesis by (simp add: fold_block_eq)
  qed
  have "fold (fold_block ?lower ?M) [0..<n] bm = bm" if "n \<le> ?nb" for n bm
    using that by (induction n) (simp_all add: step del: One_nat_def)
  then have "fold (fold_block ?lower ?M) [0..<?nb] (block_map (maps ! i)) = block_map (maps ! i)"
    by simp
  then show ?thesis
    using i by (simp add: fold_level_def Let_def list_update_same_conv del: One_nat_def)
qed

lemma fold_up_clear:
  assumes ac: "all_clear chip_size maps"
  shows "fold_up chip_size maps = maps"
proof (cases "1 \<le> length maps")
  case False
  then show ?thesis by (simp add: fold_up_def)
next
  case True
  show ?thesis
    unfolding fold_up_def
    by (rule fold_upt_invariant [where P = "\<lambda>i m. m = maps"])
       (use ac True in \<open>simp_all add: fold_level_clear\<close>)
qed

lemma prune_level_clear:
  assumes ac: "all_clear chip_size maps" and i: "i < length maps"
  shows "prune_level chip_size i maps = maps"
proof -
  let ?nb = "chip_size div map_block_size (maps ! i)"
  have "fold (\<lambda>block_index ms.
             if \<not> need_erase_bit (block_map (ms ! i) ! block_index) then ms
             else clear_all_nested i block_index ms) [0..<n] maps = maps" if "n \<le> ?nb" for n
    using that ac i by (induction n) (simp_all add: all_clear_def zero_entry_def)
  then show ?thesis by (simp add: prune_level_def)
qed

lemma fold_rev_upt_invariant:
  assumes "P hi s"
    and "\<And>j t. lo \<le> j \<Longrightarrow> j < hi \<Longrightarrow> P (Suc j) t \<Longrightarrow> P j (f j t)"
    and "lo \<le> hi"
  shows "P lo (fold f (rev [lo..<hi]) s)"
  using assms(3) assms(1) assms(2)
proof (induction hi arbitrary: s)
  case 0
  then show ?case by simp
next
  case (Suc hi)
  show ?case
  proof (cases "lo = Suc hi")
    case True
    with Suc.prems(2) show ?thesis by simp
  next
    case False
    with Suc.prems(1) have le: "lo \<le> hi" by simp
    have "P hi (f hi s)"
      using le Suc.prems(2) by (intro Suc.prems(3)) simp_all
    then have "P lo (fold f (rev [lo..<hi]) (f hi s))"
      using le by (intro Suc.IH) (simp_all add: Suc.prems(3))
    with le show ?thesis by simp
  qed
qed

lemma prune_down_clear:
  assumes ac: "all_clear chip_size maps"
  shows "prune_down chip_size maps = maps"
proof (cases "1 \<le> length maps")
  case False
  then show ?thesis by (simp add: prune_down_def)
next
  case True
  show ?thesis
    unfolding prune_down_def
    by (rule fold_rev_upt_invariant [where P = "\<lambda>i m. m = maps"])
       (use ac True in \<open>simp_all add: prune_level_clear\<close>)
qed

lemma emit_level_clear:
  assumes "block_map rmap = replicate (chip_size div map_block_size rmap) zero_entry"
  shows "emit_level chip_size rmap er (0, pus) = (0, pus)"
proof -
  let ?nb = "chip_size div map_block_size rmap"
  have "fold (emit_block rmap er) [0..<n] (0, pus) = (0, pus)" if "n \<le> ?nb" for n
    using that assms by (induction n) (simp_all add: emit_block_def zero_entry_def)
  then show ?thesis by (simp add: emit_level_def)
qed

lemma emit_units_clear:
  assumes ac: "all_clear chip_size maps" and len: "length se = length maps"
  shows "emit_units chip_size maps se = []"
proof -
  have "fold (\<lambda>i. emit_level chip_size (maps ! i) (se ! i)) [0..<n] (0, []) = (0, [])"
    if "n \<le> length maps" for n
    using that ac by (induction n) (simp_all add: emit_level_clear all_clear_def)
  then show ?thesis by (simp add: emit_units_def len)
qed

lemma diffed_maps_all_clear:
  assumes "se \<noteq> []"
  shows "all_clear chip_size (diffed_maps ce se chip_size ev img img)"
  unfolding all_clear_def
proof (intro allI impI)
  fix a assume "a < length (diffed_maps ce se chip_size ev img img)"
  then have a: "a < length se" by simp
  show "block_map (diffed_maps ce se chip_size ev img img ! a) =
        replicate (chip_size div map_block_size (diffed_maps ce se chip_size ev img img ! a)) zero_entry"
  proof (cases "a = 0")
    case True
    with a show ?thesis
      by (simp add: diffed_maps_equal_images diffed_maps_size zero_entry_def)
  next
    case False
    with a show ?thesis
      by (simp add: diffed_maps_upper diffed_maps_size zero_entry_def)
  qed
qed


lemma chain_dvd:
  assumes "chain m" "b < length m"
  shows "a \<le> b \<Longrightarrow> map_block_size (m ! a) dvd map_block_size (m ! b)"
  using assms(2)
proof (induction b)
  case 0
  then show ?case by simp
next
  case (Suc b)
  show ?case
  proof (cases "a = Suc b")
    case True
    then show ?thesis by simp
  next
    case False
    with Suc.prems have "a \<le> b" by simp
    with Suc have "map_block_size (m ! a) dvd map_block_size (m ! b)" by simp
    moreover from assms(1) Suc.prems(2)
    have "map_block_size (m ! b) dvd map_block_size (m ! Suc b)"
      by (simp add: chain_def)
    ultimately show ?thesis by (rule dvd_trans)
  qed
qed



lemma clear_block_length [simp]: "length (clear_block k j m) = length m"
  by (simp add: clear_block_def)




















lemma fill_action_descriptor_identical:
  assumes "se \<noteq> []" and "\<forall>er \<in> set se. eraser_size ce er \<noteq> 0"
  shows "fill_action_descriptor slot img img se ce chip_size ev = Inr [slot\<lparr>num_blocks := 0\<rparr>]"
proof -
  let ?m0 = "diffed_maps ce se chip_size ev img img"
  have ac: "all_clear chip_size ?m0" by (rule diffed_maps_all_clear [OF assms(1)])
  have "planned_maps ce se chip_size ev img img = ?m0"
    by (simp add: planned_maps_def fold_range_maps_def fold_up_clear [OF ac] prune_down_clear [OF ac])
  then have "emit_units chip_size (planned_maps ce se chip_size ev img img) se = []"
    using emit_units_clear [OF ac] by simp
  with assms show ?thesis
    by (simp add: fill_action_descriptor_def list_ex_iff)
qed

section \<open>The planner on an example\<close>

text \<open>
  The planner evaluated on the small chip, for a chip that holds zeros and an image whose
  first 1536 bytes are ones: the first three blocks of 512 bytes are marked, the fold marks
  the first block of 1 KiB, the prune clears the two blocks of 512 bytes below it, and two
  units are emitted.
\<close>

lemma small_sizes:
  "eraser_size (block_erasers (small_chip z g)) (three_levels ! 0) = 512"
  "eraser_size (block_erasers (small_chip z g)) (three_levels ! 1) = 1024"
  "eraser_size (block_erasers (small_chip z g)) (three_levels ! Suc 0) = 1024"
  "eraser_size (block_erasers (small_chip z g)) (three_levels ! 2) = 2048"
  "eraser_size (block_erasers (small_chip z g)) (three_levels ! Suc (Suc 0)) = 2048"
  "length three_levels = 3"
  by (simp_all add: three_levels_def eraser_size_def small_chip_def)

lemma replicate_small:
  "replicate 4 x = [x, x, x, x]" "replicate 2 x = [x, x]" "replicate 1 x = [x]"
  by (simp_all add: numeral_eq_Suc)

lemma small_diffed:
  "diffed_maps (block_erasers (small_chip z g)) three_levels 2048 255
     (replicate 2048 0) (replicate 1536 1 @ replicate 512 0) =
     [\<lparr>map_block_size = 512, limit = 1,
        block_map = [\<lparr>need_change_bit = True, need_erase_bit = True\<rparr>,
                     \<lparr>need_change_bit = True, need_erase_bit = True\<rparr>,
                     \<lparr>need_change_bit = True, need_erase_bit = True\<rparr>,
                     \<lparr>need_change_bit = False, need_erase_bit = False\<rparr>]\<rparr>,
      \<lparr>map_block_size = 1024, limit = 1,
        block_map = [\<lparr>need_change_bit = False, need_erase_bit = False\<rparr>,
                     \<lparr>need_change_bit = False, need_erase_bit = False\<rparr>]\<rparr>,
      \<lparr>map_block_size = 2048, limit = 0,
        block_map = [\<lparr>need_change_bit = False, need_erase_bit = False\<rparr>]\<rparr>]"
proof -
  have tail: "diff_scan (replicate 2048 0) (replicate 1536 1 @ replicate 512 0) 255 2048 512 1537 bm = bm" for bm
    by (rule diff_scan_equal) (simp add: nth_append)
  show ?thesis
    by (simp add: diffed_maps_def init_range_maps_def init_range_map_def small_sizes Let_def
      diff_scan.simps [of _ _ _ _ _ 0] diff_scan.simps [of _ _ _ _ _ 513]
      diff_scan.simps [of _ _ _ _ _ 1025] tail and_not_def upt_rec nth_append
      numeral_2_eq_2 numeral_3_eq_3 replicate_small)
qed

lemma small_folded:
  "fold_up 2048 (diffed_maps (block_erasers (small_chip z g)) three_levels 2048 255
     (replicate 2048 0) (replicate 1536 1 @ replicate 512 0)) =
     [\<lparr>map_block_size = 512, limit = 1,
        block_map = [\<lparr>need_change_bit = True, need_erase_bit = True\<rparr>,
                     \<lparr>need_change_bit = True, need_erase_bit = True\<rparr>,
                     \<lparr>need_change_bit = True, need_erase_bit = True\<rparr>,
                     \<lparr>need_change_bit = False, need_erase_bit = False\<rparr>]\<rparr>,
      \<lparr>map_block_size = 1024, limit = 1,
        block_map = [\<lparr>need_change_bit = True, need_erase_bit = True\<rparr>,
                     \<lparr>need_change_bit = False, need_erase_bit = False\<rparr>]\<rparr>,
      \<lparr>map_block_size = 2048, limit = 0,
        block_map = [\<lparr>need_change_bit = False, need_erase_bit = False\<rparr>]\<rparr>]"
  unfolding small_diffed
  by (simp add: fold_up_def fold_level_def fold_block_def Let_def upt_conv_Cons)



lemma highest_modified_equal:
  assumes "\<And>i. i < n \<Longrightarrow> newc ! i = oldc ! i"
  shows "highest_modified oldc newc n = 0"
  unfolding highest_modified_def
  by (rule fold_upt_invariant [where P = "\<lambda>i b. b = 0"]) (simp_all add: assms)

lemma highest_modified_last:
  assumes k: "k < n" "newc ! k \<noteq> oldc ! k"
    and rest: "\<And>i. k < i \<Longrightarrow> i < n \<Longrightarrow> newc ! i = oldc ! i"
  shows "highest_modified oldc newc n = k + 1"
proof -
  let ?f = "\<lambda>i block_size. if newc ! i \<noteq> oldc ! i then i + 1 else block_size"
  have "[0..<k + (n - k)] = [0..<k] @ [k..<k + (n - k)]"
    by (rule upt_add_eq_append) simp
  then have split: "[0..<n] = [0..<k] @ [k] @ [Suc k..<n]"
    using k(1) by (simp add: upt_conv_Cons)
  have "fold ?f [Suc k..<n] (k + 1) = k + 1"
    by (rule fold_upt_invariant [where P = "\<lambda>i b. b = k + 1"]) (use k rest in simp_all)
  then show ?thesis
    using k(2) by (simp add: highest_modified_def split)
qed

lemma small_selection:
  "H \<le> 2048 \<Longrightarrow> fill_sorted_erasers (block_erasers (small_chip z g)) H = Inr three_levels"
  by (simp add: fill_sorted_erasers_def fill_sorted_loop.simps find_region.simps small_chip_def
      NUM_ERASEFUNCTIONS_def NUM_ERASEREGIONS_def eraser_size_def no_eraser_def no_region_def
      three_levels_def)











section \<open>Properties of the planner\<close>

text \<open>
  Claim C3.  When the two images are equal, the planner emits no processing unit: the array
  \<open>processing_units\<close> it fills consists of the sentinel alone, so its first element has
  \<open>num_blocks = 0\<close>.  This holds of \<open>fill_action_descriptor\<close> for every non-empty list of
  erasers with non-zero block sizes (the inputs for which it has a result), and of
  \<open>prepare_action_descriptor\<close> whenever it returns a descriptor.
\<close>

theorem identical_images_no_units:
  "(se \<noteq> [] \<and> (\<forall>er \<in> set se. eraser_size ce er \<noteq> 0) \<longrightarrow>
      fill_action_descriptor slot img img se ce chip_size ev = Inr [slot\<lparr>num_blocks := 0\<rparr>]) \<and>
   (prepare_action_descriptor slot flash img img = Inr d \<longrightarrow>
      processing_units d = [slot\<lparr>num_blocks := 0\<rparr>] \<and> num_blocks (processing_units d ! 0) = 0)"
proof (intro conjI impI)
  assume "se \<noteq> [] \<and> (\<forall>er \<in> set se. eraser_size ce er \<noteq> 0)"
  then show "fill_action_descriptor slot img img se ce chip_size ev = Inr [slot\<lparr>num_blocks := 0\<rparr>]"
    by (simp add: fill_action_descriptor_identical)
next
  assume res: "prepare_action_descriptor slot flash img img = Inr d"
  let ?cs = "(total_size flash * 1024) mod 2 ^ 32"
  from res obtain es pus
    where es: "fill_sorted_erasers (block_erasers flash) (highest_modified img img ?cs) = Inr es"
      and pus: "fill_action_descriptor slot img img es (block_erasers flash) ?cs
                  (flash_erase_value flash) = Inr pus"
      and d: "d = \<lparr>oldcontents = img, newcontents = img, processing_units = pus\<rparr>"
    by (auto simp: prepare_action_descriptor_def Let_def split: sum.splits)
  from pus have "es \<noteq> []" and "\<forall>er \<in> set es. eraser_size (block_erasers flash) er \<noteq> 0"
    by (auto simp: fill_action_descriptor_def list_ex_iff split: if_splits)
  with pus have "pus = [slot\<lparr>num_blocks := 0\<rparr>]"
    by (simp add: fill_action_descriptor_identical)
  with d show "processing_units d = [slot\<lparr>num_blocks := 0\<rparr>]"
    and "num_blocks (processing_units d ! 0) = 0" by simp_all
qed

theorem identical_images_no_units_witness:
  "fill_action_descriptor a_slot (replicate 2048 0xff) (replicate 2048 0xff) three_levels
      (block_erasers (small_chip False write_gran_1byte)) 2048 255 = Inr [a_slot\<lparr>num_blocks := 0\<rparr>] \<and>
   prepare_action_descriptor a_slot (small_chip False write_gran_1byte)
      (replicate 2048 0xff) (replicate 2048 0xff) =
     Inr \<lparr>oldcontents = replicate 2048 0xff, newcontents = replicate 2048 0xff,
          processing_units = [a_slot\<lparr>num_blocks := 0\<rparr>]\<rparr> \<and>
   num_blocks ([a_slot\<lparr>num_blocks := 0\<rparr>] ! 0) = 0"
proof -
  let ?chip = "small_chip False write_gran_1byte"
  let ?img = "replicate 2048 (0xff :: u8)"
  have ne: "three_levels \<noteq> [] \<and> (\<forall>er \<in> set three_levels. eraser_size (block_erasers ?chip) er \<noteq> 0)"
    by (simp add: three_levels_def eraser_size_def small_chip_def)
  note inst = identical_images_no_units [of three_levels "block_erasers ?chip" a_slot ?img 2048 255 ?chip]
  from inst ne have fill: "fill_action_descriptor a_slot ?img ?img three_levels
      (block_erasers ?chip) 2048 255 = Inr [a_slot\<lparr>num_blocks := 0\<rparr>]"
    by blast
  have hm: "highest_modified ?img ?img 2048 = 0"
    by (rule highest_modified_equal) simp
  have ts: "total_size ?chip * 1024 = 2048" by (simp add: small_chip_def)
  have ev: "flash_erase_value ?chip = 255"
    by (simp add: flash_erase_value_def ERASED_VALUE_def small_chip_def)
  have prep: "prepare_action_descriptor a_slot ?chip ?img ?img =
     Inr \<lparr>oldcontents = ?img, newcontents = ?img, processing_units = [a_slot\<lparr>num_blocks := 0\<rparr>]\<rparr>"
    by (simp add: prepare_action_descriptor_def ts hm small_selection ev fill)
  from inst prep fill show ?thesis by simp
qed

text \<open>
  Claim C4.  After the upward pass of \<open>fold_range_maps\<close> on the maps of the planner, for
  every level \<open>i \<ge> 1\<close> and every block \<open>j\<close> of that level, with \<open>M\<close> the number of lower
  blocks per block: the limit of the lower map is \<open>(M * 7) div 10\<close>; the block is marked for
  erase exactly when the number of lower blocks \<open>j * M .. j * M + M - 1\<close> marked for erase
  exceeds that limit (so it is not marked when the count is at or below the limit); and
  its \<open>need_change\<close> flag is set exactly when it is so marked and at least one of those
  lower blocks is marked for change.
\<close>

theorem fold_step_threshold:
  assumes i: "1 \<le> i" "i < length se"
    and j: "j < chip_size div eraser_size ce (se ! i)"
    and m: "m = fold_up chip_size (diffed_maps ce se chip_size ev oldc newc)"
    and M: "M = eraser_size ce (se ! i) div eraser_size ce (se ! (i - 1))"
  shows "limit (m ! (i - 1)) = (M * 7) div 10 \<and>
         need_erase_bit (block_map (m ! i) ! j) =
           (erase_marked (m ! (i - 1)) (j * M) (j * M + M) > (M * 7) div 10) \<and>
         need_change_bit (block_map (m ! i) ! j) =
           (erase_marked (m ! (i - 1)) (j * M) (j * M + M) > (M * 7) div 10 \<and>
            change_marked (m ! (i - 1)) (j * M) (j * M + M) > 0)"
proof -
  let ?m0 = "diffed_maps ce se chip_size ev oldc newc"
  from i have n1: "1 \<le> length ?m0" by simp
  from fold_up_folded [OF n1, of chip_size] m
  have fu: "folded_upto chip_size ?m0 (length ?m0) m" by simp
  then have sh: "same_shape m ?m0" by (simp add: folded_upto_def)
  from i have i1: "i - 1 < length se" by simp
  have lim: "limit (m ! (i - 1)) = (M * 7) div 10"
    using sh i1 i by (simp add: same_shape_def diffed_maps_limit M)
  have jl: "j < length (block_map (?m0 ! i))"
    using i j by (simp add: diffed_maps_map_length)
  have entry: "block_map (m ! i) ! j =
      folded_entry (m ! (i - 1)) M j \<lparr>need_change_bit = False, need_erase_bit = False\<rparr>"
  proof -
    from fu i jl have "block_map (m ! i) ! j =
              (if j < chip_size div map_block_size (?m0 ! i)
               then folded_entry (m ! (i - 1))
                      (map_block_size (?m0 ! i) div map_block_size (?m0 ! (i - 1))) j
                      (block_map (?m0 ! i) ! j)
               else block_map (?m0 ! i) ! j)"
      unfolding folded_upto_def by simp
    with i i1 j show ?thesis
      by (simp add: diffed_maps_size diffed_maps_upper M)
  qed
  show ?thesis
    unfolding entry using lim by (simp add: folded_entry_def)
qed

theorem fold_step_threshold_witness:
  "(1::nat) \<le> 1 \<and> 1 < length three_levels \<and>
   0 < 2048 div eraser_size (block_erasers (small_chip False write_gran_1byte)) (three_levels ! 1) \<and>
   limit (fold_up 2048 (diffed_maps (block_erasers (small_chip False write_gran_1byte)) three_levels
            2048 255 (replicate 2048 0) (replicate 1536 1 @ replicate 512 0)) ! (1 - 1)) = (2 * 7) div 10 \<and>
   need_erase_bit (block_map (fold_up 2048 (diffed_maps (block_erasers (small_chip False write_gran_1byte))
            three_levels 2048 255 (replicate 2048 0) (replicate 1536 1 @ replicate 512 0)) ! 1) ! 0) \<and>
   (2 * 7) div 10 < erase_marked (fold_up 2048 (diffed_maps (block_erasers (small_chip False write_gran_1byte))
            three_levels 2048 255 (replicate 2048 0) (replicate 1536 1 @ replicate 512 0)) ! (1 - 1))
            (0 * 2) (0 * 2 + 2)"
proof -
  let ?ce = "block_erasers (small_chip False write_gran_1byte)"
  let ?m = "fold_up 2048 (diffed_maps ?ce three_levels 2048 255
              (replicate 2048 0) (replicate 1536 1 @ replicate 512 0))"
  have i: "(1::nat) \<le> 1" "1 < length three_levels" by (simp_all add: small_sizes)
  have j: "0 < 2048 div eraser_size ?ce (three_levels ! 1)" by (simp add: small_sizes)
  have M: "(2::nat) = eraser_size ?ce (three_levels ! 1) div eraser_size ?ce (three_levels ! (1 - 1))"
    by (simp add: small_sizes)
  have ne: "need_erase_bit (block_map (?m ! 1) ! 0)"
    by (simp add: small_folded)
  note inst = fold_step_threshold [where m = ?m and ev = 255 and oldc = "replicate 2048 0"
      and newc = "replicate 1536 1 @ replicate 512 0", OF i j refl M]
  from inst have A: "limit (?m ! (1 - 1)) = (2 * 7) div 10"
    and B: "need_erase_bit (block_map (?m ! 1) ! 0) =
           (erase_marked (?m ! (1 - 1)) (0 * 2) (0 * 2 + 2) > (2 * 7) div 10)"
    by blast+
  from B ne have C: "(2 * 7) div 10 < erase_marked (?m ! (1 - 1)) (0 * 2) (0 * 2 + 2)"
    by blast
  from i j A ne C show ?thesis by blast
qed




section \<open>The planner and the executor on two images that differ at a block start\<close>

text \<open>
  The diff scan finds the difference at offset 0, sets both flags of block 0 and moves on:
  \<open>i\<close> becomes 512, the start of the next block, and the \<open>i++\<close> of the loop makes it 513,
  so the byte at offset 512 is not compared.  The rest of the images is equal, and block 1
  stays unmarked.
\<close>

lemma unit_a_fields [simp]:
  "offset unit_a = 0" "block_size unit_a = 512" "num_blocks unit_a = 1"
  "block_eraser_index unit_a = 0" "block_region_index unit_a = 0"
  by (simp_all add: unit_a_def)

lemma image_nth:
  "k < 2048 \<Longrightarrow> image_a ! k = 0"
  "k < 2048 \<Longrightarrow> image_b ! k = (if k = 0 \<or> k = 512 then 1 else 0)"
  by (auto simp: image_a_def image_b_def nth_list_update)

lemma image_length [simp]: "length image_a = 2048" "length image_b = 2048"
  by (simp_all add: image_a_def image_b_def)

lemma missed_highest: "highest_modified image_a image_b 2048 = 513"
  using highest_modified_last [of 512 2048 image_b image_a]
  by (simp add: image_nth)

lemma missed_diffed:
  "diffed_maps (block_erasers (small_chip z g)) three_levels 2048 255 image_a image_b =
     [\<lparr>map_block_size = 512, limit = 1,
        block_map = [\<lparr>need_change_bit = True, need_erase_bit = True\<rparr>,
                     \<lparr>need_change_bit = False, need_erase_bit = False\<rparr>,
                     \<lparr>need_change_bit = False, need_erase_bit = False\<rparr>,
                     \<lparr>need_change_bit = False, need_erase_bit = False\<rparr>]\<rparr>,
      \<lparr>map_block_size = 1024, limit = 1,
        block_map = [\<lparr>need_change_bit = False, need_erase_bit = False\<rparr>,
                     \<lparr>need_change_bit = False, need_erase_bit = False\<rparr>]\<rparr>,
      \<lparr>map_block_size = 2048, limit = 0,
        block_map = [\<lparr>need_change_bit = False, need_erase_bit = False\<rparr>]\<rparr>]"
proof -
  have tail: "diff_scan image_a image_b 255 2048 512 513 bm = bm" for bm
    by (rule diff_scan_equal) (simp add: image_nth)
  show ?thesis
    by (simp add: diffed_maps_def init_range_maps_def init_range_map_def small_sizes Let_def
      diff_scan.simps [of _ _ _ _ _ 0] tail and_not_def upt_conv_Cons image_nth
      numeral_2_eq_2 numeral_3_eq_3 replicate_small)
qed

lemma missed_planned:
  "planned_maps (block_erasers (small_chip z g)) three_levels 2048 255 image_a image_b =
     [\<lparr>map_block_size = 512, limit = 1,
        block_map = [\<lparr>need_change_bit = True, need_erase_bit = True\<rparr>,
                     \<lparr>need_change_bit = False, need_erase_bit = False\<rparr>,
                     \<lparr>need_change_bit = False, need_erase_bit = False\<rparr>,
                     \<lparr>need_change_bit = False, need_erase_bit = False\<rparr>]\<rparr>,
      \<lparr>map_block_size = 1024, limit = 1,
        block_map = [\<lparr>need_change_bit = False, need_erase_bit = False\<rparr>,
                     \<lparr>need_change_bit = False, need_erase_bit = False\<rparr>]\<rparr>,
      \<lparr>map_block_size = 2048, limit = 0,
        block_map = [\<lparr>need_change_bit = False, need_erase_bit = False\<rparr>]\<rparr>]"
  unfolding planned_maps_def fold_range_maps_def missed_diffed
  by (simp add: fold_up_def fold_level_def fold_block_def prune_down_def prune_level_def
      clear_block_def Let_def upt_conv_Cons numeral_2_eq_2 numeral_3_eq_3)

lemma missed_units:
  "emit_units 2048
     (planned_maps (block_erasers (small_chip z g)) three_levels 2048 255 image_a image_b)
     three_levels =
     [unit_a]"
  unfolding missed_planned
  by (simp add: emit_units_def emit_level_def emit_block_def emit_unit_def Let_def
      three_levels_def upt_conv_Cons unit_a_def)

lemma missed_descriptor:
  "prepare_action_descriptor a_slot (small_chip False g) image_a image_b =
     Inr \<lparr>oldcontents = image_a, newcontents = image_b,
          processing_units =
            [unit_a, a_slot\<lparr>num_blocks := 0\<rparr>]\<rparr>"
proof -
  have ts: "total_size (small_chip False g) * 1024 = 2048" by (simp add: small_chip_def)
  have ev: "flash_erase_value (small_chip False g) = 255"
    by (simp add: flash_erase_value_def ERASED_VALUE_def small_chip_def)
  have "three_levels \<noteq> []"
    and "\<not> list_ex (\<lambda>er. eraser_size (block_erasers (small_chip False g)) er = 0) three_levels"
    by (simp_all add: three_levels_def eraser_size_def small_chip_def)
  then have fill: "fill_action_descriptor a_slot image_a image_b three_levels
      (block_erasers (small_chip False g)) 2048 255 =
     Inr [unit_a, a_slot\<lparr>num_blocks := 0\<rparr>]"
    by (simp add: fill_action_descriptor_def missed_units)
  show ?thesis
    by (simp add: prepare_action_descriptor_def ts missed_highest small_selection ev fill)
qed

lemma gnw_scan_run:
  assumes "\<And>k. i \<le> k \<Longrightarrow> k < len div stride \<Longrightarrow>
             differ (drop (k * stride) have) (drop (k * stride) want) (c_min stride (len - k * stride))"
    and "i \<le> len div stride"
  shows "gnw_scan have want len stride i True rs = (len div stride, True, rs)"
  using assms
proof (induction "len div stride - i" arbitrary: i)
  case 0
  then show ?case by (subst gnw_scan.simps) simp
next
  case (Suc d)
  then have il: "i < len div stride" by simp
  have "gnw_scan have want len stride (i + 1) True rs = (len div stride, True, rs)"
    using Suc.hyps(2) il by (intro Suc.hyps(1) Suc.prems(1)) simp_all
  with il Suc.prems(1) [of i] show ?case
    by (subst gnw_scan.simps) (simp add: Let_def)
qed


lemma differ_one: "differ a b 1 = (a ! 0 \<noteq> b ! 0)" "differ a b (Suc 0) = (a ! 0 \<noteq> b ! 0)"
  by (simp_all add: differ_def)

lemma erased_a_nth: "k < 2048 \<Longrightarrow> erased_a ! k = (if k < 512 then 0xff else 0)"
  by (simp add: erased_a_def memset_def nth_append image_a_def)

lemma erased_a_length [simp]: "length erased_a = 2048"
  by (simp add: erased_a_def memset_def)

lemma missed_decision:
  "erase_decision (small_chip False write_gran_1byte) image_a image_b 0 512"
  by (auto simp: erase_decision_def small_chip_def list_ex_iff image_nth intro!: bexI [of _ 0])

lemma missed_first_write:
  "get_next_write (drop 0 erased_a) (drop 0 image_b) 512 write_gran_1byte = (512, 0)"
proof -
  have d: "differ (drop k erased_a) (drop k image_b) 1"
    and d': "differ (drop k erased_a) (drop k image_b) (Suc 0)" if "k < 512" for k
    using that by (simp_all add: differ_one erased_a_nth image_nth)
  have "gnw_scan erased_a image_b 512 1 (0 + 1) True 0 = (512 div 1, True, 0)"
    by (rule gnw_scan_run) (simp_all add: d' c_min_small)
  then have "gnw_scan erased_a image_b 512 1 0 False 0 = (512, True, 0)"
    using d' [of 0] by (subst gnw_scan.simps) (simp add: c_min_small)
  then show ?thesis by (simp add: get_next_write_def c_min_small)
qed

lemma no_more_write:
  "get_next_write have want 0 write_gran_1byte = (0, 0)"
  by (simp add: get_next_write_def gnw_scan.simps [of _ _ 0])

lemma missed_write:
  "write_flash (small_chip False write_gran_1byte) (drop 0 image_b) 0 512 erased_a tr =
     (0, written_a, tr @ [EvWrite 0 512])"
  by (simp add: write_flash_def small_chip_def ideal_write_def written_a_def erased_a_def
      memset_def)

lemma missed_runs:
  "write_runs plain_env (small_chip False write_gran_1byte) 0 512 erased_a image_b True 0 0
     erased_a tr = Some (0, written_a, tr @ [EvWrite 0 512])"
proof -
  have g: "gran (small_chip False write_gran_1byte) = write_gran_1byte"
    by (simp add: small_chip_def)
  have second: "write_runs plain_env (small_chip False write_gran_1byte) 0 512 erased_a image_b
      True 512 0 written_a tr' = Some (0, written_a, tr')" for tr'
    by (subst write_runs.simps) (simp add: g no_more_write)
  have p: "\<not> paranoid plain_env" by (simp add: plain_env_def)
  show ?thesis
    using missed_first_write missed_write [of tr]
    by (subst write_runs.simps) (simp add: g second p)
qed

lemma missed_helper:
  "erase_and_write_block_helper plain_env (small_chip False write_gran_1byte) 0 512
     image_a image_b (Some (ideal_erase 0xff)) image_a tr =
   Some (0, erased_a, written_a, tr @ [EvErase 0 512, EvWrite 0 512])"
proof -
  have p: "\<not> paranoid plain_env" by (simp add: plain_env_def)
  have "ERASED_VALUE (small_chip False write_gran_1byte) = 0xff"
    by (simp add: ERASED_VALUE_def small_chip_def)
  then show ?thesis
    using missed_decision missed_runs [of "tr @ [EvErase 0 512]"]
    by (simp add: erase_and_write_block_helper_def ideal_erase_def p
        erased_a_def [symmetric])
qed

lemma missed_execution:
  "erase_and_write_flash plain_env (small_chip False write_gran_1byte)
     \<lparr>oldcontents = image_a, newcontents = image_b,
      processing_units = [unit_a, a_slot\<lparr>num_blocks := 0\<rparr>]\<rparr> image_a [] =
   Some (0, erased_a, written_a, [EvErase 0 512, EvWrite 0 512])"
proof -
  let ?chip = "small_chip False write_gran_1byte"
  let ?pu = "unit_a"
  have ef: "block_erase (block_erasers ?chip ! 0) = Some (ideal_erase 0xff)"
    by (simp add: small_chip_def)
  have stop: "walk_blocks plain_env ?chip ?pu image_b 512 512 0 erased_a written_a tr =
      Some (Inr 0, erased_a, written_a, tr)" for tr
    by (subst walk_blocks.simps) simp
  have "walk_blocks plain_env ?chip ?pu image_b 0 512 0 image_a image_a [] =
      Some (Inr 0, erased_a, written_a, [EvErase 0 512, EvWrite 0 512])"
    using missed_helper [of "[]"]
    by (subst walk_blocks.simps) (simp add: ef stop)
  then show ?thesis
    by (simp add: erase_and_write_flash_def)
qed

text \<open>
  Claim C2 does not hold of the planner.  For \<open>image_a\<close> and \<open>image_b\<close> on the small chip
  the planner emits the single unit for block 0, which covers the addresses 0 to 511; the
  images differ at address 512, which no unit covers.
\<close>

theorem coverage_misses_block_start:
  "prepare_action_descriptor a_slot (small_chip False write_gran_1byte) image_a image_b =
     Inr \<lparr>oldcontents = image_a, newcontents = image_b,
          processing_units =
            [unit_a, a_slot\<lparr>num_blocks := 0\<rparr>]\<rparr> \<and>
   image_a ! 512 \<noteq> image_b ! 512 \<and>
   512 \<notin> covered [unit_a, a_slot\<lparr>num_blocks := 0\<rparr>]"
  by (simp add: missed_descriptor image_nth covered_def)

text \<open>
  Claim C1 does not hold either, for the same reason.  Executing the units emitted for
  \<open>image_a\<close> and \<open>image_b\<close> on the ideal master, from a chip that holds \<open>image_a\<close>, erases and
  rewrites block 0 only: the chip ends with \<open>written_a\<close>, whose byte at offset 512 is still
  0 where \<open>image_b\<close> has 1.
\<close>

theorem planned_execution_misses_byte:
  "plan_and_execute plain_env a_slot (small_chip False write_gran_1byte) image_a image_b =
     Some written_a \<and>
   written_a ! 512 = 0 \<and> image_b ! 512 = 1 \<and> written_a \<noteq> image_b"
proof -
  have w: "written_a ! 512 = 0"
    by (simp add: written_a_def nth_append image_nth)
  have b: "image_b ! 512 = 1" by (simp add: image_nth)
  from w b have "written_a \<noteq> image_b" by auto
  with w b show ?thesis
    by (simp add: plan_and_execute_def missed_descriptor missed_execution)
qed

section \<open>Properties of the executor: verification of the written runs\<close>

subsection \<open>The trace of a block that is written without an erase\<close>







subsection \<open>A mismatch after a write\<close>








subsection \<open>Three executions on the small chip\<close>


lemma blank_length [simp]: "length blank = 2048" "length blank_b = 2048"
  by (simp_all add: blank_def blank_b_def)




lemma chips_fields [simp]:
  "page_size stuck_chip = 256" "check_access stuck_chip = None"
  "chip_read stuck_chip = Some ideal_read" "chip_write stuck_chip = Some stuck_write"
  "total_size stuck_chip = 2" "gran stuck_chip = write_gran_1byte"
  "ERASED_VALUE stuck_chip = 0xff"
  "page_size guarded_chip = 256" "check_access guarded_chip = Some denied_access"
  "chip_read guarded_chip = Some ideal_read" "chip_write guarded_chip = Some stuck_write"
  "total_size guarded_chip = 2" "gran guarded_chip = write_gran_1byte"
  "page_size (small_chip z g) = 256" "check_access (small_chip z g) = None"
  "chip_read (small_chip z g) = Some ideal_read" "chip_write (small_chip z g) = Some ideal_write"
  "total_size (small_chip z g) = 2" "gran (small_chip z g) = g"
  "ERASED_VALUE (small_chip False g) = 0xff"
  by (simp_all add: guarded_chip_def stuck_chip_def small_chip_def ERASED_VALUE_def)

lemma paranoid_env_paranoid [simp]: "paranoid paranoid_env"
  by (simp add: paranoid_env_def)


















end
